theory Spec2Isabelle
  imports Complex_Main "HOL-Library.Char_ord" "HOL-Library.List_Lexorder"
begin

section \<open>Calendar dates, as Python's datetime.date has them\<close>

text \<open>
  The record engine of \<^verbatim>\<open>sneeuwhistorie.py\<close> works on calendar dates: the index of the
  daily series, and the argument of \<^verbatim>\<open>get_seasonal_ordinal\<close>. Of a date the code reads
  \<^verbatim>\<open>year\<close>, \<^verbatim>\<open>month\<close>, the day of the year (\<^verbatim>\<open>timetuple().tm_yday\<close>), the
  order and differences in days. Python's ints are unbounded, so the fields are
  \<^typ>\<open>int\<close>.
\<close>

datatype date = Date (year: int) (month: int) (day: int)

datatype error = ValueError | OverflowError

definition MINYEAR :: int where
  "MINYEAR = 1"

definition MAXYEAR :: int where
  "MAXYEAR = 9999"

definition is_leap :: "int \<Rightarrow> bool" where
  "is_leap y = (y mod 4 = 0 \<and> (y mod 100 \<noteq> 0 \<or> y mod 400 = 0))"

definition days_in_month :: "int \<Rightarrow> int \<Rightarrow> int" where
  "days_in_month y m =
     (if m = 2 then (if is_leap y then 29 else 28)
      else if m = 4 \<or> m = 6 \<or> m = 9 \<or> m = 11 then 30
      else 31)"

text \<open>Days of the year before the first day of month \<open>m\<close> (for \<open>1 \<le> m \<le> 12\<close>).\<close>

definition days_before_month :: "int \<Rightarrow> int \<Rightarrow> int" where
  "days_before_month y m =
     (if m \<le> 1 then 0
      else if m = 2 then 31
      else (if is_leap y then 1 else 0) +
        (if m = 3 then 59 else if m = 4 then 90 else if m = 5 then 120
         else if m = 6 then 151 else if m = 7 then 181 else if m = 8 then 212
         else if m = 9 then 243 else if m = 10 then 273 else if m = 11 then 304
         else 334))"

text \<open>Days before January 1 of year \<open>y\<close>, counted from 0001-01-01 (proleptic Gregorian).\<close>

definition days_before_year :: "int \<Rightarrow> int" where
  "days_before_year y =
     (let y1 = y - 1 in y1 * 365 + y1 div 4 - y1 div 100 + y1 div 400)"

definition valid_date :: "date \<Rightarrow> bool" where
  "valid_date d =
     (MINYEAR \<le> year d \<and> year d \<le> MAXYEAR \<and> 1 \<le> month d \<and> month d \<le> 12 \<and>
      1 \<le> day d \<and> day d \<le> days_in_month (year d) (month d))"

text \<open>
  \<^verbatim>\<open>datetime.date(y, m, d)\<close>: the constructor raises ValueError when the year is outside
  \<open>MINYEAR..MAXYEAR\<close>, the month outside \<open>1..12\<close> or the day outside the month.
\<close>

definition date_new :: "int \<Rightarrow> int \<Rightarrow> int \<Rightarrow> error + date" where
  "date_new y m d =
     (if valid_date (Date y m d) then Inr (Date y m d) else Inl ValueError)"

text \<open>\<^verbatim>\<open>date.replace(month=m, day=d)\<close> builds a new date with the same year.\<close>

definition date_replace :: "date \<Rightarrow> int \<Rightarrow> int \<Rightarrow> error + date" where
  "date_replace dt m d = date_new (year dt) m d"

text \<open>\<^verbatim>\<open>date.timetuple().tm_yday\<close>: the day of the year, January 1 being day 1.\<close>

definition tm_yday :: "date \<Rightarrow> int" where
  "tm_yday d = days_before_month (year d) (month d) + day d"

text \<open>\<^verbatim>\<open>date.toordinal()\<close>: the day number, 0001-01-01 being day 1.\<close>

definition toordinal :: "date \<Rightarrow> int" where
  "toordinal d = days_before_year (year d) + tm_yday d"

text \<open>Dates compare as (year, month, day) triples.\<close>

instantiation date :: linorder
begin

definition less_eq_date :: "date \<Rightarrow> date \<Rightarrow> bool" where
  "less_eq_date a b =
     (year a < year b \<or> (year a = year b \<and>
        (month a < month b \<or> (month a = month b \<and> day a \<le> day b))))"

definition less_date :: "date \<Rightarrow> date \<Rightarrow> bool" where
  "less_date a b =
     (year a < year b \<or> (year a = year b \<and>
        (month a < month b \<or> (month a = month b \<and> day a < day b))))"

instance
proof
  fix x y z :: date
  show "(x < y) = (x \<le> y \<and> \<not> y \<le> x)"
    by (auto simp: less_eq_date_def less_date_def)
  show "x \<le> x"
    by (simp add: less_eq_date_def)
  show "x \<le> y \<Longrightarrow> y \<le> z \<Longrightarrow> x \<le> z"
    by (auto simp: less_eq_date_def)
  show "x \<le> y \<Longrightarrow> y \<le> x \<Longrightarrow> x = y"
    by (auto simp: less_eq_date_def intro: date.expand)
  show "x \<le> y \<or> y \<le> x"
    by (auto simp: less_eq_date_def)
qed

end

section \<open>The seasonal ordinal\<close>

text \<open>
  \<^verbatim>\<open>get_seasonal_ordinal(date)\<close>, lines 120-144. The \<^verbatim>\<open>try\<close> builds June 30 of the
  date's year; on ValueError the \<^verbatim>\<open>except\<close> branch builds it with \<^verbatim>\<open>replace\<close>. The
  constructions of December 31 and June 30 of the previous year are outside the
  \<^verbatim>\<open>try\<close>, so a ValueError there leaves the function.

  The two ways to June 30 give the same value wherever both return, so the result alone
  does not show which one ran. The run of the function is therefore modelled with a
  flag beside the result: the flag is true when the \<^verbatim>\<open>except\<close> branch was entered.
  \<open>get_seasonal_ordinal\<close> is the result of that run.
\<close>

definition get_seasonal_ordinal_traced :: "date \<Rightarrow> bool \<times> (error + int)" where
  "get_seasonal_ordinal_traced dt =
     (case (case date_new (year dt) 6 30 of
              Inr j \<Rightarrow> (False, Inr (tm_yday j))
            | Inl ValueError \<Rightarrow>
                (True, (case date_replace dt 6 30 of
                          Inr j \<Rightarrow> Inr (tm_yday j)
                        | Inl e \<Rightarrow> Inl e))
            | Inl e \<Rightarrow> (False, Inl e)) of
        (except_entered, Inl e) \<Rightarrow> (except_entered, Inl e)
      | (except_entered, Inr jun_30_ordinal) \<Rightarrow>
          (except_entered,
           if month dt \<ge> 7 then Inr (tm_yday dt - jun_30_ordinal)
           else
             (let prev_year = year dt - 1 in
              case date_new prev_year 12 31 of
                Inl e \<Rightarrow> Inl e
              | Inr dec_31 \<Rightarrow>
                  (let prev_year_dec_31_ordinal = tm_yday dec_31 in
                   case date_new prev_year 6 30 of
                     Inl e \<Rightarrow> Inl e
                   | Inr jun_30 \<Rightarrow>
                       (let prev_year_jun_30_ordinal = tm_yday jun_30;
                            days_in_prev_second_half =
                              prev_year_dec_31_ordinal - prev_year_jun_30_ordinal
                        in Inr (tm_yday dt + days_in_prev_second_half))))))"

definition get_seasonal_ordinal :: "date \<Rightarrow> error + int" where
  "get_seasonal_ordinal dt = snd (get_seasonal_ordinal_traced dt)"

section \<open>Season labels\<close>

text \<open>
  Python's \<^verbatim>\<open>str\<close> of an integer (what \<^verbatim>\<open>astype(str)\<close> gives for each year): the
  decimal digits, with a minus sign for a negative number.
\<close>

definition digit_char :: "nat \<Rightarrow> char" where
  "digit_char n = ''0123456789'' ! n"

fun str_nat :: "nat \<Rightarrow> string" where
  "str_nat n =
     (if n < 10 then [digit_char n] else str_nat (n div 10) @ [digit_char (n mod 10)])"

declare str_nat.simps [simp del]

definition str_int :: "int \<Rightarrow> string" where
  "str_int i = (if i < 0 then CHR ''-'' # str_nat (nat (- i)) else str_nat (nat i))"

text \<open>
  Lines 158-161, for one index entry: \<^verbatim>\<open>year_start\<close> is the year where the month is
  at least 7 and the year minus 1 elsewhere, \<^verbatim>\<open>year_end = year_start + 1\<close>, and the
  label joins their decimal forms with a slash.
\<close>

definition year_start :: "date \<Rightarrow> int" where
  "year_start d = (if month d \<ge> 7 then year d else year d - 1)"

definition year_end :: "date \<Rightarrow> int" where
  "year_end d = year_start d + 1"

definition season_label :: "date \<Rightarrow> string" where
  "season_label d = str_int (year_start d) @ ''/'' @ str_int (year_end d)"

text \<open>
  Reading a decimal numeral back. The code has no such function: it is used here to
  show that different years give different labels.
\<close>

definition digit_val :: "char \<Rightarrow> nat" where
  "digit_val c = of_char c - 48"

definition parse_nat :: "string \<Rightarrow> nat" where
  "parse_nat s = foldl (\<lambda>a c. 10 * a + digit_val c) 0 s"

definition parse_int :: "string \<Rightarrow> int" where
  "parse_int s =
     (case s of
        [] \<Rightarrow> 0
      | c # r \<Rightarrow> if c = CHR ''-'' then - int (parse_nat r) else int (parse_nat s))"

definition label_start :: "string \<Rightarrow> int" where
  "label_start s = parse_int (takeWhile (\<lambda>c. c \<noteq> CHR ''/'') s)"

section \<open>The record engine\<close>

text \<open>
  A daily series is a pandas DataFrame with a date index and the column
  \<^verbatim>\<open>'Max Sneeuwdiepte (cm)'\<close>: a list of rows in index order. The depths are floats
  that the engine only compares (with zero and with each other), so they are
  \<^typ>\<open>real\<close>; NaN is not a value of the model (the builder fills it with 0.0).
  The working copy \<^verbatim>\<open>temp_df\<close> has the column \<^verbatim>\<open>'Seizoen'\<close> as well.
\<close>

record row =
  idx :: date
  depth_cm :: real

record temp_row = row +
  Seizoen :: string

definition add_Seizoen :: "row list \<Rightarrow> temp_row list" where
  "add_Seizoen df =
     map (\<lambda>r. \<lparr>idx = idx r, depth_cm = depth_cm r, Seizoen = season_label (idx r)\<rparr>) df"

text \<open>
  \<^verbatim>\<open>groupby('Seizoen')\<close>: one group per label, the labels in sorted order (strings
  compare character by character), each group holding its rows in index order.
\<close>

definition groupby_Seizoen :: "temp_row list \<Rightarrow> (string \<times> temp_row list) list" where
  "groupby_Seizoen rows =
     map (\<lambda>k. (k, filter (\<lambda>r. Seizoen r = k) rows)) (sort (remdups (map Seizoen rows)))"

text \<open>
  \<^verbatim>\<open>sort_values\<close>, taken as a stable sort (pandas' default sort kind does not promise
  an order among equal keys; the model keeps them in their order before the sort).
  Descending, pandas reverses the input, sorts ascending and reverses the result.
\<close>

definition sort_values_asc :: "('a \<Rightarrow> 'k::linorder) \<Rightarrow> 'a list \<Rightarrow> 'a list" where
  "sort_values_asc f xs = sort_key f xs"

definition sort_values_desc :: "('a \<Rightarrow> 'k::linorder) \<Rightarrow> 'a list \<Rightarrow> 'a list" where
  "sort_values_desc f xs = rev (sort_key f (rev xs))"

text \<open>
  \<^verbatim>\<open>strftime\<close> with the formats \<^verbatim>\<open>%d-%m\<close> and \<^verbatim>\<open>%d-%m-%Y\<close>: day and month are
  padded to two digits; the year is printed by the C library, and glibc does not pad it
  (a year below 1000 has fewer than four digits).
\<close>

definition zero_pad :: "nat \<Rightarrow> string \<Rightarrow> string" where
  "zero_pad w s = replicate (w - length s) CHR ''0'' @ s"

definition strftime_dm :: "date \<Rightarrow> string" where
  "strftime_dm d = zero_pad 2 (str_int (day d)) @ ''-'' @ zero_pad 2 (str_int (month d))"

definition strftime_dmY :: "date \<Rightarrow> string" where
  "strftime_dmY d = strftime_dm d @ ''-'' @ str_int (year d)"

text \<open>
  \<^verbatim>\<open>df['Datum'].apply(get_seasonal_ordinal)\<close>: the ordinal of each row's date, in row
  order; the first ValueError leaves the whole computation.
\<close>

fun apply_seasonal_ordinal :: "(string \<times> date) list \<Rightarrow> error + (string \<times> date \<times> int) list" where
  "apply_seasonal_ordinal [] = Inr []"
| "apply_seasonal_ordinal ((s, d) # rest) =
     (case get_seasonal_ordinal d of
        Inl e \<Rightarrow> Inl e
      | Inr n \<Rightarrow>
          (case apply_seasonal_ordinal rest of
             Inl e \<Rightarrow> Inl e
           | Inr ys \<Rightarrow> Inr ((s, d, n) # ys)))"

text \<open>The four onset and end rankings: sort by ordinal, keep 10, format day-month.\<close>

definition ranking_asc :: "(string \<times> date \<times> int) list \<Rightarrow> (string \<times> string) list" where
  "ranking_asc rows =
     map (\<lambda>(s, d, n). (strftime_dm d, s)) (take 10 (sort_values_asc (\<lambda>(s, d, n). n) rows))"

definition ranking_desc :: "(string \<times> date \<times> int) list \<Rightarrow> (string \<times> string) list" where
  "ranking_desc rows =
     map (\<lambda>(s, d, n). (strftime_dm d, s)) (take 10 (sort_values_desc (\<lambda>(s, d, n). n) rows))"

subsection \<open>The longest streak (lines 218-234)\<close>

text \<open>
  \<^verbatim>\<open>snow_present_days.diff().dt.days\<close>: for each snow day the number of days since
  the snow day before it in the series; the first has none (NaN).
\<close>

fun diff_days_from :: "date \<Rightarrow> date list \<Rightarrow> int option list" where
  "diff_days_from p [] = []"
| "diff_days_from p (d # ds) = Some (toordinal d - toordinal p) # diff_days_from d ds"

definition diff_days :: "date list \<Rightarrow> int option list" where
  "diff_days ds = (case ds of [] \<Rightarrow> [] | d # rest \<Rightarrow> None # diff_days_from d rest)"

text \<open>\<^verbatim>\<open>.ne(1)\<close>: true where the difference is not 1, and true for NaN.\<close>

definition ne_1 :: "int option list \<Rightarrow> bool list" where
  "ne_1 xs = map (\<lambda>x. x \<noteq> Some 1) xs"

text \<open>\<^verbatim>\<open>.cumsum()\<close> of booleans: the running count of true entries.\<close>

fun cumsum_from :: "nat \<Rightarrow> bool list \<Rightarrow> nat list" where
  "cumsum_from a [] = []"
| "cumsum_from a (b # bs) = (let a' = a + (if b then 1 else 0) in a' # cumsum_from a' bs)"

definition cumsum :: "bool list \<Rightarrow> nat list" where
  "cumsum bs = cumsum_from 0 bs"

definition consecutive_groups :: "date list \<Rightarrow> nat list" where
  "consecutive_groups snow_present_days = cumsum (ne_1 (diff_days snow_present_days))"

text \<open>
  \<^verbatim>\<open>value_counts()\<close>: each distinct value with its number of occurrences, sorted by
  the count, descending. \<^verbatim>\<open>idxmax()\<close> is the first label that has the maximum.
\<close>

definition unique :: "'a list \<Rightarrow> 'a list" where
  "unique xs = rev (remdups (rev xs))"

definition value_counts :: "nat list \<Rightarrow> (nat \<times> nat) list" where
  "value_counts xs = sort_values_desc snd (map (\<lambda>g. (g, count_list xs g)) (unique xs))"

definition idxmax :: "(nat \<times> nat) list \<Rightarrow> nat" where
  "idxmax vc = fst (hd (filter (\<lambda>(g, c). c = Max (set (map snd vc))) vc))"

definition longest_streak :: "date list \<Rightarrow> nat \<times> date \<times> date" where
  "longest_streak snow_present_days =
     (let consecutive_groups = consecutive_groups snow_present_days;
          streak_lengths = value_counts consecutive_groups;
          longest_streak_length = Max (set (map snd streak_lengths));
          longest_streak_group = idxmax streak_lengths;
          members = map fst (filter (\<lambda>(d, g). g = longest_streak_group)
                                    (zip snow_present_days consecutive_groups))
      in (longest_streak_length, Min (set members), Max (set members)))"

definition format_streak :: "nat \<times> date \<times> date \<Rightarrow> string" where
  "format_streak r =
     (case r of (n, a, b) \<Rightarrow>
        str_nat n @ '' dagen ('' @ strftime_dmY a @ '' t/m '' @ strftime_dmY b @ '')'')"

text \<open>
  Reading the streak text back into its three parts. The code has no such function: it
  is used here to show that the text tells the length, the first day and the last day.
\<close>

definition is_digit :: "char \<Rightarrow> bool" where
  "is_digit c = (c \<in> set ''0123456789'')"

definition read_nat :: "string \<Rightarrow> nat \<times> string" where
  "read_nat s = (parse_nat (takeWhile is_digit s), dropWhile is_digit s)"

definition parse_date :: "string \<Rightarrow> date \<times> string" where
  "parse_date s =
     (case read_nat s of (d, r1) \<Rightarrow>
        (case read_nat (tl r1) of (m, r2) \<Rightarrow>
           (case read_nat (tl r2) of (y, r3) \<Rightarrow> (Date (int y) (int m) (int d), r3))))"

definition parse_streak :: "string \<Rightarrow> nat \<times> date \<times> date" where
  "parse_streak s =
     (case read_nat s of (n, r0) \<Rightarrow>
        (case parse_date (drop 8 r0) of (a, r1) \<Rightarrow>
           (case parse_date (drop 5 r1) of (b, r2) \<Rightarrow> (n, a, b))))"

subsection \<open>calculate_snow_records (lines 149-239)\<close>

record snow_records =
  Top_10_Hoogste_Max :: "(string \<times> real) list"
  Top_10_Vroegste_Start_Sneeuwdek :: "(string \<times> string) list"
  Top_10_Laatste_Start_Sneeuwdek :: "(string \<times> string) list"
  Top_10_Vroegste_Einde_Sneeuwdek :: "(string \<times> string) list"
  Top_10_Laatste_Einde_Sneeuwdek :: "(string \<times> string) list"
  Top_10_Meeste_Dagen :: "(string \<times> nat) list"
  Absoluut_Langste_Periode :: "string option"
  Totaal_Dagen_met_Sneeuw :: "nat option"

definition season_maxima :: "temp_row list \<Rightarrow> (string \<times> real) list" where
  "season_maxima temp_df =
     sort_values_desc snd
       (map (\<lambda>(k, g). (k, Max (set (map depth_cm g)))) (groupby_Seizoen temp_df))"

definition yearly_max :: "temp_row list \<Rightarrow> (string \<times> real) list" where
  "yearly_max temp_df = take 10 (season_maxima temp_df)"

definition earliest_snow_all :: "temp_row list \<Rightarrow> (string \<times> date) list" where
  "earliest_snow_all snow_days =
     map (\<lambda>(k, g). (k, Min (set (map idx g)))) (groupby_Seizoen snow_days)"

definition latest_snow_all :: "temp_row list \<Rightarrow> (string \<times> date) list" where
  "latest_snow_all snow_days =
     map (\<lambda>(k, g). (k, Max (set (map idx g)))) (groupby_Seizoen snow_days)"

definition snow_days_per_season :: "temp_row list \<Rightarrow> (string \<times> nat) list" where
  "snow_days_per_season snow_days =
     take 10 (sort_values_desc snd (map (\<lambda>(k, g). (k, length g)) (groupby_Seizoen snow_days)))"

text \<open>
  The part of the function after the label column is set: it reads \<^verbatim>\<open>temp_df\<close> and
  returns None (no snow day), a record set, or leaves with the ValueError of
  \<^verbatim>\<open>get_seasonal_ordinal\<close>.
\<close>

definition records_of_temp :: "temp_row list \<Rightarrow> error + snow_records option" where
  "records_of_temp temp_df =
     (let snow_days = filter (\<lambda>r. depth_cm r > 0) temp_df in
      if snow_days = [] then Inr None
      else
        (case apply_seasonal_ordinal (earliest_snow_all snow_days) of
           Inl e \<Rightarrow> Inl e
         | Inr earliest_start_df \<Rightarrow>
        (case apply_seasonal_ordinal (earliest_snow_all snow_days) of
           Inl e \<Rightarrow> Inl e
         | Inr latest_start_df \<Rightarrow>
        (case apply_seasonal_ordinal (latest_snow_all snow_days) of
           Inl e \<Rightarrow> Inl e
         | Inr earliest_end_df \<Rightarrow>
        (case apply_seasonal_ordinal (latest_snow_all snow_days) of
           Inl e \<Rightarrow> Inl e
         | Inr latest_end_df \<Rightarrow>
            (let snow_present_days = map idx (filter (\<lambda>r. depth_cm r > 0) temp_df)
             in Inr (Some
               \<lparr>Top_10_Hoogste_Max = yearly_max temp_df,
                Top_10_Vroegste_Start_Sneeuwdek = ranking_asc earliest_start_df,
                Top_10_Laatste_Start_Sneeuwdek = ranking_desc latest_start_df,
                Top_10_Vroegste_Einde_Sneeuwdek = ranking_asc earliest_end_df,
                Top_10_Laatste_Einde_Sneeuwdek = ranking_desc latest_end_df,
                Top_10_Meeste_Dagen = snow_days_per_season snow_days,
                Absoluut_Langste_Periode =
                  (if snow_present_days \<noteq> []
                   then Some (format_streak (longest_streak snow_present_days)) else None),
                Totaal_Dagen_met_Sneeuw =
                  (if snow_present_days \<noteq> []
                   then Some (length snow_days) else None)\<rparr>)))))))"

definition calculate_snow_records :: "row list \<Rightarrow> error + snow_records option" where
  "calculate_snow_records df = records_of_temp (add_Seizoen df)"

subsection \<open>The call on a shared DataFrame object\<close>

text \<open>
  Python passes the DataFrame by reference, and \<^verbatim>\<open>temp_df['Seizoen'] = ...\<close> writes
  into the object it is applied to. To see what the call does to its argument the
  objects live in a heap, addressed by their position: a DataFrame object is its rows
  and its \<^verbatim>\<open>'Seizoen'\<close> column, if it has one. \<^verbatim>\<open>df.copy()\<close> allocates a new object
  with the same contents, and the column assignment updates the object in place.
\<close>

record dataframe =
  df_rows :: "row list"
  df_Seizoen :: "string list option"

type_synonym heap = "dataframe list"

definition df_copy :: "heap \<Rightarrow> nat \<Rightarrow> nat \<times> heap" where
  "df_copy h a = (length h, h @ [h ! a])"

definition df_set_Seizoen :: "heap \<Rightarrow> nat \<Rightarrow> string list \<Rightarrow> heap" where
  "df_set_Seizoen h a col = h[a := (h ! a)\<lparr>df_Seizoen := Some col\<rparr>]"

text \<open>The rows of an object together with its label column (absent: no labels).\<close>

definition df_temp_rows :: "dataframe \<Rightarrow> temp_row list" where
  "df_temp_rows f =
     map (\<lambda>(r, s). \<lparr>idx = idx r, depth_cm = depth_cm r, Seizoen = s\<rparr>)
       (zip (df_rows f) (case df_Seizoen f of None \<Rightarrow> [] | Some col \<Rightarrow> col))"

definition calculate_snow_records_heap ::
    "heap \<Rightarrow> nat \<Rightarrow> (error + snow_records option) \<times> heap" where
  "calculate_snow_records_heap h df =
     (case df_copy h df of (temp_df, h1) \<Rightarrow>
        (let h2 = df_set_Seizoen h1 temp_df
                    (map (\<lambda>r. season_label (idx r)) (df_rows (h1 ! temp_df)))
         in (records_of_temp (df_temp_rows (h2 ! temp_df)), h2)))"

section \<open>The daily series builder: get_all_historical_data (lines 74-116)\<close>

text \<open>
  The loop only compares dates, adds days to them and hands them to the fetch, so a
  date is held here as its day number (\<^verbatim>\<open>toordinal\<close>); \<^verbatim>\<open>date + timedelta(days=n)\<close>
  raises OverflowError when the result is not a day of the years 1 to 9999.
  \<^verbatim>\<open>strptime\<close> and \<^verbatim>\<open>fetch_single_period_data\<close> (an HTTP request) are parameters:
  \<open>strptime\<close> gives the parsed date or ValueError, \<open>fetch\<close> gives the daily frame of
  a chunk or None. \<^verbatim>\<open>chunk_size_years\<close> is a number of years.
\<close>

definition MAXORDINAL :: int where
  "MAXORDINAL = 3652059"

definition date_add_days :: "int \<Rightarrow> int \<Rightarrow> error + int" where
  "date_add_days d n =
     (if 1 \<le> d + n \<and> d + n \<le> MAXORDINAL then Inr (d + n) else Inl OverflowError)"

function chunk_loop ::
    "(int \<Rightarrow> int \<Rightarrow> row list option) \<Rightarrow> nat \<Rightarrow> int \<Rightarrow> int \<Rightarrow> row list list
      \<Rightarrow> error + row list list" where
  "chunk_loop fetch chunk_size_years end_date current_start all_data_frames =
     (if current_start \<le> end_date then
        (case date_add_days current_start (int chunk_size_years * 365 + 10) of
           Inl e \<Rightarrow> Inl e
         | Inr chunk_end_candidate \<Rightarrow>
             (let chunk_end = min chunk_end_candidate end_date;
                  chunk_df = fetch current_start chunk_end;
                  frames = (case chunk_df of
                              Some f \<Rightarrow> all_data_frames @ [f]
                            | None \<Rightarrow> all_data_frames)
              in if chunk_end = end_date then Inr frames
                 else
                   (case date_add_days chunk_end 1 of
                      Inl e \<Rightarrow> Inl e
                    | Inr next_start \<Rightarrow>
                        if next_start > end_date then Inr frames
                        else chunk_loop fetch chunk_size_years end_date next_start frames)))
      else Inr all_data_frames)"
  by pat_completeness auto
termination
  by (relation "measure (\<lambda>(fetch, n, end_date, current_start, fs). nat (end_date - current_start + 1))")
     (auto simp: date_add_days_def split: if_splits)

declare chunk_loop.simps [simp del]

text \<open>
  \<^verbatim>\<open>combined_df[~combined_df.index.duplicated(keep='first')]\<close>: a row stays when no
  earlier row has its index.
\<close>

fun drop_duplicated :: "date list \<Rightarrow> row list \<Rightarrow> row list" where
  "drop_duplicated seen [] = []"
| "drop_duplicated seen (r # rs) =
     (if idx r \<in> set seen then drop_duplicated seen rs
      else r # drop_duplicated (idx r # seen) rs)"

definition get_all_historical_data ::
    "(string \<Rightarrow> error + date) \<Rightarrow> (int \<Rightarrow> int \<Rightarrow> row list option) \<Rightarrow> string \<Rightarrow> string \<Rightarrow> nat
      \<Rightarrow> error + row list option" where
  "get_all_historical_data strptime fetch start_date_api end_date_api chunk_size_years =
     (case strptime start_date_api of
        Inl e \<Rightarrow> (if e = ValueError then Inr None else Inl e)
      | Inr start_date \<Rightarrow>
     (case strptime end_date_api of
        Inl e \<Rightarrow> (if e = ValueError then Inr None else Inl e)
      | Inr end_date \<Rightarrow>
     (case chunk_loop fetch chunk_size_years (toordinal end_date) (toordinal start_date) [] of
        Inl e \<Rightarrow> Inl e
      | Inr all_data_frames \<Rightarrow>
          if all_data_frames = [] then Inr None
          else Inr (Some (drop_duplicated [] (concat all_data_frames))))))"

text \<open>
  The chunks as the description has them: successive ranges of at most
  \<open>chunk_size_years * 365 + 11\<close> days from the start date to the end date.
\<close>

function chunk_ranges :: "int \<Rightarrow> int \<Rightarrow> int \<Rightarrow> (int \<times> int) list" where
  "chunk_ranges step s e =
     (if s \<le> e \<and> 0 \<le> step then
        (if s + step < e then (s, s + step) # chunk_ranges step (s + step + 1) e
         else [(s, e)])
      else [])"
  by pat_completeness auto
termination
  by (relation "measure (\<lambda>(step, s, e). nat (e - s + 1))") auto

declare chunk_ranges.simps [simp del]

definition chunk_days :: "nat \<Rightarrow> int" where
  "chunk_days chunk_size_years = int chunk_size_years * 365 + 10"

text \<open>
  An example of the two parameters: a \<open>strptime\<close> that knows four date strings, and a
  fetch that fails for the chunk starting on day 737251 (2019-07-11) and returns two
  rows for every other chunk; its rows for the first chunk and for the later chunks
  share the date 2019-07-10.
\<close>

definition strptime_example :: "string \<Rightarrow> error + date" where
  "strptime_example s =
     (if s = ''2015-07-01'' then Inr (Date 2015 7 1)
      else if s = ''2025-06-30'' then Inr (Date 2025 6 30)
      else if s = ''9990-01-01'' then Inr (Date 9990 1 1)
      else if s = ''9999-12-31'' then Inr (Date 9999 12 31)
      else Inl ValueError)"

definition fetch_example :: "int \<Rightarrow> int \<Rightarrow> row list option" where
  "fetch_example a b =
     (if a = 735780
      then Some [\<lparr>idx = Date 2015 7 1, depth_cm = 0\<rparr>, \<lparr>idx = Date 2019 7 10, depth_cm = 1\<rparr>]
      else if a = 737251 then None
      else Some [\<lparr>idx = Date 2019 7 10, depth_cm = 2\<rparr>, \<lparr>idx = Date 2025 6 30, depth_cm = 0\<rparr>])"

section \<open>The runs of snow days, as the description has them\<close>

text \<open>
  The description of the longest streak speaks of maximal runs of consecutive calendar
  dates. \<open>runs\<close> cuts the list of snow days wherever a day is not the day after the
  one before it; \<open>run_ids\<close> numbers the days of each run with the run's position. The
  code does not build the runs: the theorems compare its group numbers with them.
\<close>

fun runs_from :: "date \<Rightarrow> date list \<Rightarrow> date list list" where
  "runs_from p [] = [[p]]"
| "runs_from p (d # ds) =
     (if toordinal d - toordinal p = 1
      then (case runs_from d ds of [] \<Rightarrow> [[p]] | r # rs \<Rightarrow> (p # r) # rs)
      else [p] # runs_from d ds)"

definition runs :: "date list \<Rightarrow> date list list" where
  "runs ds = (case ds of [] \<Rightarrow> [] | d # rest \<Rightarrow> runs_from d rest)"

fun run_ids :: "nat \<Rightarrow> 'a list list \<Rightarrow> nat list" where
  "run_ids g [] = []"
| "run_ids g (r # rs) = replicate (length r) g @ run_ids (Suc g) rs"

definition snow_dates :: "row list \<Rightarrow> date list" where
  "snow_dates df = map idx (filter (\<lambda>r. depth_cm r > 0) df)"

definition next_day :: "date \<Rightarrow> date \<Rightarrow> bool" where
  "next_day a b = (toordinal b - toordinal a = 1)"

text \<open>
  The series of the longest-streak example: snow on 2020-12-01..05, none on 2020-12-06,
  snow on 2020-12-07..10.
\<close>

definition streak_example :: "row list" where
  "streak_example =
     [\<lparr>idx = Date 2020 12 1, depth_cm = 3\<rparr>, \<lparr>idx = Date 2020 12 2, depth_cm = 4\<rparr>,
      \<lparr>idx = Date 2020 12 3, depth_cm = 4\<rparr>, \<lparr>idx = Date 2020 12 4, depth_cm = 2\<rparr>,
      \<lparr>idx = Date 2020 12 5, depth_cm = 1\<rparr>, \<lparr>idx = Date 2020 12 6, depth_cm = 0\<rparr>,
      \<lparr>idx = Date 2020 12 7, depth_cm = 6\<rparr>, \<lparr>idx = Date 2020 12 8, depth_cm = 6\<rparr>,
      \<lparr>idx = Date 2020 12 9, depth_cm = 5\<rparr>, \<lparr>idx = Date 2020 12 10, depth_cm = 5\<rparr>]"

section \<open>Facts about the calendar\<close>

lemma month_cases:
  "1 \<le> (m::int) \<Longrightarrow> m \<le> 12 \<Longrightarrow>
   m = 1 \<or> m = 2 \<or> m = 3 \<or> m = 4 \<or> m = 5 \<or> m = 6 \<or> m = 7 \<or> m = 8 \<or> m = 9 \<or> m = 10 \<or> m = 11 \<or> m = 12"
  by arith

lemma date_new_jun_30:
  "MINYEAR \<le> y \<Longrightarrow> y \<le> MAXYEAR \<Longrightarrow> date_new y 6 30 = Inr (Date y 6 30)"
  by (simp add: date_new_def valid_date_def days_in_month_def)

lemma date_new_dec_31:
  "MINYEAR \<le> y \<Longrightarrow> y \<le> MAXYEAR \<Longrightarrow> date_new y 12 31 = Inr (Date y 12 31)"
  by (simp add: date_new_def valid_date_def days_in_month_def)

lemma date_new_year_low: "y < MINYEAR \<Longrightarrow> date_new y m d = Inl ValueError"
  by (simp add: date_new_def valid_date_def)

lemma yday_jun_30: "tm_yday (Date y 6 30) = (if is_leap y then 182 else 181)"
  by (simp add: tm_yday_def days_before_month_def)

lemma yday_dec_31: "tm_yday (Date y 12 31) = (if is_leap y then 366 else 365)"
  by (simp add: tm_yday_def days_before_month_def)

lemma valid_date_year: "valid_date d \<Longrightarrow> MINYEAR \<le> year d \<and> year d \<le> MAXYEAR"
  by (simp add: valid_date_def)

lemma gso_first_half:
  assumes "valid_date dt" "7 \<le> month dt"
  shows "get_seasonal_ordinal dt = Inr (tm_yday dt - tm_yday (Date (year dt) 6 30))"
proof -
  have "date_new (year dt) 6 30 = Inr (Date (year dt) 6 30)"
    using valid_date_year [OF assms(1)] by (simp add: date_new_jun_30)
  then show ?thesis using assms(2)
    by (simp add: get_seasonal_ordinal_def get_seasonal_ordinal_traced_def)
qed

lemma gso_second_half:
  assumes "valid_date dt" "month dt < 7" "MINYEAR < year dt"
  shows "get_seasonal_ordinal dt =
     Inr (tm_yday dt + (tm_yday (Date (year dt - 1) 12 31) - tm_yday (Date (year dt - 1) 6 30)))"
proof -
  have y: "MINYEAR \<le> year dt" "year dt \<le> MAXYEAR"
    using valid_date_year [OF assms(1)] by simp_all
  have p: "MINYEAR \<le> year dt - 1" "year dt - 1 \<le> MAXYEAR" using assms(3) y by simp_all
  show ?thesis using assms(2)
    by (simp add: get_seasonal_ordinal_def get_seasonal_ordinal_traced_def Let_def
        date_new_jun_30 [OF y]
        date_new_jun_30 [OF p] date_new_dec_31 [OF p])
qed

lemma gso_year_one:
  assumes "valid_date dt" "month dt < 7" "year dt = MINYEAR"
  shows "get_seasonal_ordinal dt = Inl ValueError"
proof -
  have y: "MINYEAR \<le> year dt" "year dt \<le> MAXYEAR"
    using valid_date_year [OF assms(1)] by simp_all
  have "date_new (year dt - 1) 12 31 = Inl ValueError"
    using assms(3) by (simp add: date_new_year_low)
  then show ?thesis using assms(2)
    by (simp add: get_seasonal_ordinal_def get_seasonal_ordinal_traced_def
        date_new_jun_30 [OF y])
qed

lemma yday_after_june:
  assumes "valid_date dt" "7 \<le> month dt"
  shows "tm_yday (Date (year dt) 6 30) < tm_yday dt"
proof -
  have m: "1 \<le> month dt" "month dt \<le> 12" and d: "1 \<le> day dt"
    using assms(1) by (simp_all add: valid_date_def)
  from month_cases [OF m] assms(2) d show ?thesis
    by (elim disjE) (simp_all add: tm_yday_def days_before_month_def)
qed

lemma yday_pos: "valid_date dt \<Longrightarrow> 1 \<le> tm_yday dt"
  by (simp add: valid_date_def tm_yday_def days_before_month_def)

lemma second_half_days: "tm_yday (Date y 12 31) - tm_yday (Date y 6 30) = 184"
  by (simp add: yday_jun_30 yday_dec_31)

section \<open>Claims about the seasonal ordinal\<close>

text \<open>
  C9: for every valid date, the run of \<^verbatim>\<open>get_seasonal_ordinal\<close> does not enter the
  \<^verbatim>\<open>except\<close> branch: building June 30 of the date's year in the \<^verbatim>\<open>try\<close> returns that
  date and raises nothing (June has 30 days in every year), and the day of the year it
  yields is 182 in a leap year and 181 otherwise.
\<close>

theorem june_30_never_raises:
  assumes "valid_date dt"
  shows "get_seasonal_ordinal_traced dt = (False, get_seasonal_ordinal dt) \<and>
         date_new (year dt) 6 30 = Inr (Date (year dt) 6 30) \<and>
         tm_yday (Date (year dt) 6 30) = (if is_leap (year dt) then 182 else 181)"
proof -
  have j: "date_new (year dt) 6 30 = Inr (Date (year dt) 6 30)"
    using valid_date_year [OF assms] by (simp add: date_new_jun_30)
  have "fst (get_seasonal_ordinal_traced dt) = False"
    by (simp add: get_seasonal_ordinal_traced_def j)
  then have "get_seasonal_ordinal_traced dt = (False, get_seasonal_ordinal dt)"
    by (simp add: get_seasonal_ordinal_def prod_eq_iff)
  with j show ?thesis by (simp add: yday_jun_30)
qed

theorem june_30_never_raises_witness:
  "valid_date (Date 2020 11 15) \<and>
   get_seasonal_ordinal_traced (Date 2020 11 15) = (False, Inr 138) \<and>
   date_new 2020 6 30 = Inr (Date 2020 6 30) \<and> tm_yday (Date 2020 6 30) = 182"
proof -
  have v: "valid_date (Date 2020 11 15)"
    by (simp add: valid_date_def MINYEAR_def MAXYEAR_def days_in_month_def)
  have g: "get_seasonal_ordinal (Date 2020 11 15) = Inr 138"
    using gso_first_half [OF v] by (simp add: tm_yday_def days_before_month_def is_leap_def)
  from june_30_never_raises [OF v] v g show ?thesis
    by (simp add: is_leap_def)
qed

text \<open>
  C1, as amended: for every valid date that is in July-December or in a year after year
  1, \<^verbatim>\<open>get_seasonal_ordinal\<close> returns the day of the year minus the day of the year of
  June 30 of the same year (month at least 7), or the day of the year plus the days from
  June 30 to December 31 of the previous year (month below 7); July 1 gives 1 and the
  result is positive. (For January-June of year 1 the previous year does not exist and
  the function raises ValueError.)
\<close>

theorem seasonal_ordinal_value:
  assumes "valid_date d" and "7 \<le> month d \<or> MINYEAR < year d"
  shows "get_seasonal_ordinal d =
           Inr (if 7 \<le> month d then tm_yday d - tm_yday (Date (year d) 6 30)
                else tm_yday d + (tm_yday (Date (year d - 1) 12 31)
                                   - tm_yday (Date (year d - 1) 6 30))) \<and>
         (month d = 7 \<and> day d = 1 \<longrightarrow> get_seasonal_ordinal d = Inr 1) \<and>
         (\<exists>n. get_seasonal_ordinal d = Inr n \<and> 0 < n)"
proof (cases "7 \<le> month d")
  case True
  have v: "get_seasonal_ordinal d = Inr (tm_yday d - tm_yday (Date (year d) 6 30))"
    using assms(1) True by (rule gso_first_half)
  have pos: "0 < tm_yday d - tm_yday (Date (year d) 6 30)"
    using yday_after_june [OF assms(1) True] by simp
  have jul: "month d = 7 \<and> day d = 1 \<longrightarrow> tm_yday d - tm_yday (Date (year d) 6 30) = 1"
    by (simp add: tm_yday_def days_before_month_def)
  show ?thesis using True v pos jul by simp
next
  case False
  then have lt: "month d < 7" by simp
  with assms(2) have y: "MINYEAR < year d" by simp
  have v: "get_seasonal_ordinal d =
      Inr (tm_yday d + (tm_yday (Date (year d - 1) 12 31) - tm_yday (Date (year d - 1) 6 30)))"
    using assms(1) lt y by (rule gso_second_half)
  have pos: "0 < tm_yday d + (tm_yday (Date (year d - 1) 12 31) - tm_yday (Date (year d - 1) 6 30))"
    using yday_pos [OF assms(1)] by (simp add: second_half_days)
  show ?thesis using False lt v pos by simp
qed

theorem seasonal_ordinal_value_witness:
  "valid_date (Date 2020 11 15) \<and> get_seasonal_ordinal (Date 2020 11 15) = Inr 138"
proof -
  have v: "valid_date (Date 2020 11 15)"
    by (simp add: valid_date_def MINYEAR_def MAXYEAR_def days_in_month_def)
  have m: "7 \<le> month (Date 2020 11 15) \<or> MINYEAR < year (Date 2020 11 15)" by simp
  from seasonal_ordinal_value [OF v m] v show ?thesis
    by (simp add: tm_yday_def days_before_month_def is_leap_def)
qed

theorem seasonal_ordinal_year_one_raises:
  "valid_date (Date 1 1 1) \<and> get_seasonal_ordinal (Date 1 1 1) = Inl ValueError"
  by (simp add: get_seasonal_ordinal_def get_seasonal_ordinal_traced_def date_new_def
      valid_date_def MINYEAR_def MAXYEAR_def
      days_in_month_def is_leap_def)

text \<open>
  C3, as amended: for every season Y/Y+1 whose years are calendar years, the seasonal
  ordinal of June 30 of year Y+1 is 366 if the ending year Y+1 is a leap year and 365
  otherwise (the leap day February 29 of year Y+1 lies inside the season; the second
  half of the starting year always has 184 days).
\<close>

theorem june_30_ordinal:
  assumes "MINYEAR \<le> Y" and "Y < MAXYEAR"
  shows "year_start (Date (Y + 1) 6 30) = Y \<and>
         get_seasonal_ordinal (Date (Y + 1) 6 30) = Inr (if is_leap (Y + 1) then 366 else 365)"
proof -
  have v: "valid_date (Date (Y + 1) 6 30)"
    using assms by (simp add: valid_date_def days_in_month_def)
  have "get_seasonal_ordinal (Date (Y + 1) 6 30) =
      Inr (tm_yday (Date (Y + 1) 6 30) + (tm_yday (Date Y 12 31) - tm_yday (Date Y 6 30)))"
    using gso_second_half [OF v] assms by simp
  then show ?thesis
    by (simp add: second_half_days year_start_def) (simp add: yday_jun_30)
qed

theorem june_30_ordinal_witness:
  "MINYEAR \<le> 2020 \<and> 2020 < MAXYEAR \<and> year_start (Date 2021 6 30) = 2020 \<and>
   get_seasonal_ordinal (Date 2021 6 30) = Inr 365"
proof -
  have a: "MINYEAR \<le> 2020" and b: "2020 < MAXYEAR" by (simp_all add: MINYEAR_def MAXYEAR_def)
  from june_30_ordinal [OF a b] a b show ?thesis by (simp add: is_leap_def)
qed

theorem june_30_ordinal_starting_year_counterexample:
  "season_label (Date 2020 6 30) = ''2019/2020'' \<and> \<not> is_leap 2019 \<and>
   get_seasonal_ordinal (Date 2020 6 30) = Inr 366"
  by (simp add: season_label_def year_start_def year_end_def str_int_def str_nat.simps
      digit_char_def get_seasonal_ordinal_def get_seasonal_ordinal_traced_def date_new_def
      valid_date_def MINYEAR_def
      MAXYEAR_def days_in_month_def is_leap_def tm_yday_def days_before_month_def)

section \<open>Day numbers grow with the dates\<close>

lemma div_step:
  fixes y k :: int
  assumes "0 < k"
  shows "y div k = (y - 1) div k + (if y mod k = 0 then 1 else 0)"
proof -
  define q where "q = (y - 1) div k"
  define r where "r = (y - 1) mod k"
  have y: "y = k * q + (r + 1)"
    unfolding q_def r_def by (simp add: algebra_simps)
  have r: "0 \<le> r" "r < k"
    using assms by (simp_all add: r_def)
  show ?thesis
  proof (cases "r + 1 = k")
    case True
    then have y': "y = k * (q + 1) + 0" using y by (simp add: algebra_simps)
    have "y div k = q + 1" by (rule int_div_pos_eq [OF y']) (use assms in simp_all)
    moreover have "y mod k = 0" by (rule int_mod_pos_eq [OF y']) (use assms in simp_all)
    ultimately show ?thesis by (simp add: q_def)
  next
    case False
    then have lt: "r + 1 < k" using r by simp
    have nn: "0 \<le> r + 1" using r by simp
    have "y div k = q" using y nn lt by (rule int_div_pos_eq)
    moreover have "y mod k = r + 1" using y nn lt by (rule int_mod_pos_eq)
    ultimately show ?thesis using r by (simp add: q_def)
  qed
qed

lemma days_before_year_Suc:
  "days_before_year (y + 1) = days_before_year y + (if is_leap y then 366 else 365)"
proof -
  define p where "p = (y - 1) div 4"
  define q where "q = (y - 1) div 100"
  define r where "r = (y - 1) div 400"
  define L4 where "L4 = (y mod 4 = 0)"
  define L100 where "L100 = (y mod 100 = 0)"
  define L400 where "L400 = (y mod 400 = 0)"
  have a: "y div 4 = p + (if L4 then 1 else 0)"
    unfolding p_def L4_def by (rule div_step) simp
  have b: "y div 100 = q + (if L100 then 1 else 0)"
    unfolding q_def L100_def by (rule div_step) simp
  have c: "y div 400 = r + (if L400 then 1 else 0)"
    unfolding r_def L400_def by (rule div_step) simp
  have "(100::int) dvd 400" and "(4::int) dvd 100" by simp_all
  then have d: "L400 \<Longrightarrow> L100" and e: "L100 \<Longrightarrow> L4"
    unfolding L400_def L100_def L4_def mod_eq_0_iff_dvd by (blast intro: dvd_trans)+
  have l: "is_leap y = (L4 \<and> (\<not> L100 \<or> L400))"
    by (simp only: is_leap_def L4_def L100_def L400_def)
  have n: "days_before_year (y + 1) = y * 365 + y div 4 - y div 100 + y div 400"
    by (simp only: days_before_year_def Let_def add_diff_cancel_right')
  have o: "days_before_year y = (y - 1) * 365 + p - q + r"
    by (simp only: days_before_year_def Let_def p_def q_def r_def)
  have "y * 365 + (p + (if L4 then 1 else 0)) - (q + (if L100 then 1 else 0))
          + (r + (if L400 then 1 else 0))
        = (y - 1) * 365 + p - q + r + (if L4 \<and> (\<not> L100 \<or> L400) then 366 else 365)"
    using d e by (cases L4; cases L100; cases L400; simp add: algebra_simps)
  then show ?thesis
    by (simp only: n o l a b c)
qed


lemma days_before_year_mono:
  assumes "y \<le> y'"
  shows "days_before_year y \<le> days_before_year y'"
  using assms
proof (induction y' rule: int_ge_induct)
  case base
  show ?case by simp
next
  case (step i)
  then show ?case by (simp add: days_before_year_Suc)
qed

lemma yday_le_year_length:
  assumes "valid_date d"
  shows "tm_yday d \<le> (if is_leap (year d) then 366 else 365)"
proof -
  have m: "1 \<le> month d" "month d \<le> 12" and dd: "day d \<le> days_in_month (year d) (month d)"
    using assms by (simp_all add: valid_date_def)
  from month_cases [OF m] dd show ?thesis
    by (elim disjE)
      (simp_all add: tm_yday_def days_before_month_def days_in_month_def split: if_splits)
qed

lemma days_before_month_Suc:
  assumes "1 \<le> m" "m < 12"
  shows "days_before_month y (m + 1) = days_before_month y m + days_in_month y m"
proof -
  have "m \<le> 12" using assms by simp
  from month_cases [OF assms(1) this] assms(2) show ?thesis
    by (elim disjE) (simp_all add: days_before_month_def days_in_month_def)
qed

lemma days_before_month_mono:
  assumes "1 \<le> m" "m \<le> k" "k \<le> 12"
  shows "days_before_month y m \<le> days_before_month y k"
  using assms(2,3)
proof (induction k rule: int_ge_induct)
  case base
  show ?case by simp
next
  case (step i)
  have i: "1 \<le> i" "i < 12" using step.hyps step.prems assms(1) by simp_all
  have "days_before_month y m \<le> days_before_month y i"
    using step.IH i by simp
  moreover have "days_before_month y (i + 1) = days_before_month y i + days_in_month y i"
    using i by (rule days_before_month_Suc)
  moreover have "0 \<le> days_in_month y i" by (simp add: days_in_month_def)
  ultimately show ?case by simp
qed

lemma month_end_le_next_start:
  assumes "1 \<le> m" "m < m'" "m' \<le> 12"
  shows "days_before_month y m + days_in_month y m \<le> days_before_month y m'"
proof -
  have "m < 12" using assms by simp
  then have "days_before_month y (m + 1) = days_before_month y m + days_in_month y m"
    using assms(1) by (simp add: days_before_month_Suc)
  moreover have "days_before_month y (m + 1) \<le> days_before_month y m'"
    using assms by (intro days_before_month_mono) simp_all
  ultimately show ?thesis by simp
qed

lemma toordinal_strict_mono:
  assumes "valid_date d" "valid_date d'" "d < d'"
  shows "toordinal d < toordinal d'"
proof -
  have v: "1 \<le> month d" "month d \<le> 12" "1 \<le> day d" "day d \<le> days_in_month (year d) (month d)"
    and v': "1 \<le> month d'" "month d' \<le> 12" "1 \<le> day d'"
    using assms(1,2) by (simp_all add: valid_date_def)
  consider (y) "year d < year d'"
    | (m) "year d = year d'" "month d < month d'"
    | (dd) "year d = year d'" "month d = month d'" "day d < day d'"
    using assms(3) by (auto simp: less_date_def)
  then show ?thesis
  proof cases
    case y
    then have "days_before_year (year d + 1) \<le> days_before_year (year d')"
      by (intro days_before_year_mono) simp
    moreover have "tm_yday d \<le> (if is_leap (year d) then 366 else 365)"
      using assms(1) by (rule yday_le_year_length)
    moreover have "1 \<le> tm_yday d'" using assms(2) by (rule yday_pos)
    ultimately show ?thesis
      by (simp add: toordinal_def days_before_year_Suc split: if_splits)
  next
    case m
    have "days_before_month (year d) (month d) + days_in_month (year d) (month d)
        \<le> days_before_month (year d) (month d')"
      using v(1) m(2) v'(2) by (rule month_end_le_next_start)
    then show ?thesis using m(1) v(4) v'(3) by (simp add: toordinal_def tm_yday_def)
  next
    case dd
    then show ?thesis by (simp add: toordinal_def tm_yday_def)
  qed
qed

lemma toordinal_le_iff:
  assumes "valid_date d" "valid_date d'"
  shows "(toordinal d \<le> toordinal d') = (d \<le> d')"
proof
  assume le: "toordinal d \<le> toordinal d'"
  show "d \<le> d'"
  proof (rule ccontr)
    assume "\<not> d \<le> d'"
    then have "d' < d" by simp
    from toordinal_strict_mono [OF assms(2,1) this] le
    show False by simp
  qed
next
  assume "d \<le> d'"
  then consider "d = d'" | "d < d'" by (auto simp: le_less)
  then show "toordinal d \<le> toordinal d'"
    using toordinal_strict_mono [OF assms] by cases auto
qed

section \<open>Labels determine the starting year\<close>

lemma digit_cases: "(k::nat) < 10 \<Longrightarrow> k \<in> {0, 1, 2, 3, 4, 5, 6, 7, 8, 9}"
  by auto

lemma digit_char_props:
  assumes "k < 10"
  shows "digit_val (digit_char k) = k \<and> digit_char k \<noteq> CHR ''/'' \<and> digit_char k \<noteq> CHR ''-''"
  using digit_cases [OF assms]
  by (auto simp: digit_char_def digit_val_def)

lemma parse_nat_snoc: "parse_nat (s @ [c]) = 10 * parse_nat s + digit_val c"
  by (simp add: parse_nat_def)

lemma parse_nat_str_nat: "parse_nat (str_nat n) = n"
proof (induction n rule: str_nat.induct)
  case (1 n)
  show ?case
  proof (cases "n < 10")
    case True
    then show ?thesis
      using digit_char_props [of n] by (simp add: str_nat.simps [of n] parse_nat_def)
  next
    case False
    have "n mod 10 < 10" by simp
    then have "digit_val (digit_char (n mod 10)) = n mod 10"
      using digit_char_props by blast
    with False "1.IH" show ?thesis
      by (simp add: str_nat.simps [of n] parse_nat_snoc)
  qed
qed

lemma str_nat_chars:
  "c \<in> set (str_nat n) \<Longrightarrow> c \<noteq> CHR ''/'' \<and> c \<noteq> CHR ''-''"
proof (induction n rule: str_nat.induct)
  case (1 n)
  show ?case
  proof (cases "n < 10")
    case True
    with "1.prems" show ?thesis
      using digit_char_props [of n] by (simp add: str_nat.simps [of n])
  next
    case False
    have "n mod 10 < 10" by simp
    then have "digit_char (n mod 10) \<noteq> CHR ''/'' \<and> digit_char (n mod 10) \<noteq> CHR ''-''"
      using digit_char_props by blast
    with False "1.IH" "1.prems" show ?thesis
      by (auto simp: str_nat.simps [of n])
  qed
qed

lemma str_nat_not_Nil: "str_nat n \<noteq> []"
  by (subst str_nat.simps) simp

lemma parse_int_str_int: "parse_int (str_int i) = i"
proof (cases "i < 0")
  case True
  then show ?thesis
    by (simp add: str_int_def parse_int_def parse_nat_str_nat)
next
  case False
  obtain c r where cr: "str_nat (nat i) = c # r"
    using str_nat_not_Nil [of "nat i"] by (cases "str_nat (nat i)") auto
  then have "c \<in> set (str_nat (nat i))" by simp
  then have "c \<noteq> CHR ''-''" using str_nat_chars by blast
  moreover have "parse_nat (c # r) = nat i" using parse_nat_str_nat [of "nat i"] cr by simp
  ultimately show ?thesis using False cr
    by (simp add: str_int_def parse_int_def)
qed

lemma str_int_no_slash: "c \<in> set (str_int i) \<Longrightarrow> c \<noteq> CHR ''/''"
  using str_nat_chars by (auto simp: str_int_def split: if_splits)

lemma label_start_season_label: "label_start (season_label d) = year_start d"
proof -
  have "takeWhile (\<lambda>c. c \<noteq> CHR ''/'') (str_int (year_start d) @ ''/'' @ str_int (year_end d))
      = str_int (year_start d)"
    using str_int_no_slash [of _ "year_start d"] by (simp add: takeWhile_tail)
  then show ?thesis
    by (simp add: label_start_def season_label_def parse_int_str_int)
qed

lemma season_label_eq_iff: "(season_label d = season_label d') = (year_start d = year_start d')"
proof
  assume "season_label d = season_label d'"
  then have "label_start (season_label d) = label_start (season_label d')" by simp
  then show "year_start d = year_start d'" by (simp add: label_start_season_label)
next
  assume "year_start d = year_start d'"
  then show "season_label d = season_label d'" by (simp add: season_label_def year_end_def)
qed


section \<open>Seasons and the order of dates\<close>








lemma valid_2020_07_01: "valid_date (Date 2020 7 1)"
  by (simp add: valid_date_def MINYEAR_def MAXYEAR_def days_in_month_def)




lemma gso_day_number:
  assumes "valid_date d" "MINYEAR \<le> year_start d"
  shows "get_seasonal_ordinal d = Inr (toordinal d - toordinal (Date (year_start d) 6 30))"
proof (cases "7 \<le> month d")
  case True
  then show ?thesis
    using gso_first_half [OF assms(1) True] by (simp add: year_start_def toordinal_def)
next
  case False
  then have lt: "month d < 7" by simp
  then have y: "MINYEAR < year d" using assms(2) by (simp add: year_start_def)
  have "days_before_year (year d - 1 + 1) =
      days_before_year (year d - 1) + (if is_leap (year d - 1) then 366 else 365)"
    by (rule days_before_year_Suc)
  then have "days_before_year (year d) - days_before_year (year d - 1)
      - tm_yday (Date (year d - 1) 6 30) = 184"
    by (simp add: yday_jun_30)
  then show ?thesis
    using gso_second_half [OF assms(1) lt y] lt
    by (simp add: year_start_def toordinal_def second_half_days)
qed

lemma gso_Inr_season:
  assumes "valid_date d" "get_seasonal_ordinal d = Inr a"
  shows "MINYEAR \<le> year_start d"
proof (rule ccontr)
  assume n: "\<not> MINYEAR \<le> year_start d"
  have y: "MINYEAR \<le> year d" using assms(1) by (simp add: valid_date_def)
  with n have "month d < 7" "year d = MINYEAR"
    by (auto simp: year_start_def split: if_splits)
  with assms(1) have "get_seasonal_ordinal d = Inl ValueError" by (rule gso_year_one)
  with assms(2) show False by simp
qed

lemma valid_2020_12_31: "valid_date (Date 2020 12 31)"
  by (simp add: valid_date_def MINYEAR_def MAXYEAR_def days_in_month_def)

lemma valid_2021_01_01: "valid_date (Date 2021 1 1)"
  by (simp add: valid_date_def MINYEAR_def MAXYEAR_def days_in_month_def)

lemma valid_0001_01_01: "valid_date (Date 1 1 1)"
  by (simp add: valid_date_def MINYEAR_def MAXYEAR_def days_in_month_def)

lemma valid_0001_01_02: "valid_date (Date 1 1 2)"
  by (simp add: valid_date_def MINYEAR_def MAXYEAR_def days_in_month_def)

text \<open>
  C2, as amended: for valid dates \<open>D1\<close> and \<open>D2\<close> with the same season label, if the
  season's starting year is a calendar year (at least 1), both dates have a seasonal
  ordinal, the ordinal of \<open>D1\<close> is at most that of \<open>D2\<close> exactly when \<open>D1 \<le> D2\<close>, and
  the difference of the ordinals is the number of days from \<open>D1\<close> to \<open>D2\<close>, so the
  ordinal grows by exactly the day difference, also from December 31 to January 1. In
  the season 0/1 (January-June of year 1) the function raises ValueError for both.
\<close>

theorem seasonal_ordinal_order:
  assumes "valid_date D1" and "valid_date D2"
    and "season_label D1 = season_label D2"
  shows "(MINYEAR \<le> year_start D1 \<longrightarrow>
            (\<exists>a b. get_seasonal_ordinal D1 = Inr a \<and> get_seasonal_ordinal D2 = Inr b \<and>
                   (a \<le> b) = (D1 \<le> D2) \<and> b - a = toordinal D2 - toordinal D1)) \<and>
         (year_start D1 < MINYEAR \<longrightarrow>
            get_seasonal_ordinal D1 = Inl ValueError \<and>
            get_seasonal_ordinal D2 = Inl ValueError)"
proof (intro conjI impI)
  have s: "year_start D1 = year_start D2"
    using assms(3) by (simp add: season_label_eq_iff)
  {
    assume m: "MINYEAR \<le> year_start D1"
    have a: "get_seasonal_ordinal D1 = Inr (toordinal D1 - toordinal (Date (year_start D1) 6 30))"
      using assms(1) m by (rule gso_day_number)
    have b: "get_seasonal_ordinal D2 = Inr (toordinal D2 - toordinal (Date (year_start D1) 6 30))"
      using gso_day_number [OF assms(2)] m s by simp
    have "(toordinal D1 - toordinal (Date (year_start D1) 6 30)
           \<le> toordinal D2 - toordinal (Date (year_start D1) 6 30)) = (D1 \<le> D2)"
      using toordinal_le_iff [OF assms(1,2)] by simp
    with a b
    show "\<exists>a b. get_seasonal_ordinal D1 = Inr a \<and> get_seasonal_ordinal D2 = Inr b \<and>
        (a \<le> b) = (D1 \<le> D2) \<and> b - a = toordinal D2 - toordinal D1"
      by simp
  }
  {
    assume l: "year_start D1 < MINYEAR"
    have one: "month d < 7 \<and> year d = MINYEAR" if "valid_date d" "year_start d < MINYEAR" for d
      using that valid_date_year [of d] by (auto simp: year_start_def split: if_splits)
    from one [OF assms(1) l] assms(1)
    show "get_seasonal_ordinal D1 = Inl ValueError" by (intro gso_year_one) simp_all
    from one [OF assms(2)] l s assms(2)
    show "get_seasonal_ordinal D2 = Inl ValueError" by (intro gso_year_one) simp_all
  }
qed

theorem seasonal_ordinal_order_witness:
  "valid_date (Date 2020 12 31) \<and> valid_date (Date 2021 1 1) \<and>
   season_label (Date 2020 12 31) = season_label (Date 2021 1 1) \<and>
   MINYEAR \<le> year_start (Date 2020 12 31) \<and>
   get_seasonal_ordinal (Date 2020 12 31) = Inr 184 \<and>
   get_seasonal_ordinal (Date 2021 1 1) = Inr 185 \<and>
   Date 2020 12 31 \<le> Date 2021 1 1 \<and>
   valid_date (Date 1 1 1) \<and> valid_date (Date 1 1 2) \<and>
   season_label (Date 1 1 1) = season_label (Date 1 1 2) \<and>
   year_start (Date 1 1 1) < MINYEAR \<and>
   get_seasonal_ordinal (Date 1 1 2) = Inl ValueError"
proof -
  have l: "season_label (Date 2020 12 31) = season_label (Date 2021 1 1)"
    by (simp add: season_label_eq_iff year_start_def)
  have m: "MINYEAR \<le> year_start (Date 2020 12 31)"
    by (simp add: year_start_def MINYEAR_def)
  have g: "get_seasonal_ordinal (Date 2020 12 31) = Inr 184"
    using gso_first_half [OF valid_2020_12_31]
    by (simp add: tm_yday_def days_before_month_def)
  have t: "toordinal (Date 2021 1 1) - toordinal (Date 2020 12 31) = 1"
    using days_before_year_Suc [of 2020]
    by (simp add: toordinal_def tm_yday_def days_before_month_def is_leap_def)
  from seasonal_ordinal_order [OF valid_2020_12_31 valid_2021_01_01 l] m g t
  have x: "get_seasonal_ordinal (Date 2021 1 1) = Inr 185 \<and> Date 2020 12 31 \<le> Date 2021 1 1"
    by auto
  have l1: "season_label (Date 1 1 1) = season_label (Date 1 1 2)"
    by (simp add: season_label_eq_iff year_start_def)
  have m1: "year_start (Date 1 1 1) < MINYEAR"
    by (simp add: year_start_def MINYEAR_def)
  from seasonal_ordinal_order [OF valid_0001_01_01 valid_0001_01_02 l1] m1
  have y: "get_seasonal_ordinal (Date 1 1 2) = Inl ValueError" by blast
  from x y valid_2020_12_31 valid_2021_01_01 l m g valid_0001_01_01 valid_0001_01_02 l1 m1
  show ?thesis by simp
qed

theorem seasonal_ordinal_order_year_one:
  "valid_date (Date 1 1 1) \<and> valid_date (Date 1 1 2) \<and>
   season_label (Date 1 1 1) = ''0/1'' \<and> season_label (Date 1 1 2) = ''0/1'' \<and>
   Date 1 1 1 \<le> Date 1 1 2 \<and>
   get_seasonal_ordinal (Date 1 1 1) = Inl ValueError \<and>
   get_seasonal_ordinal (Date 1 1 2) = Inl ValueError"
proof -
  have "get_seasonal_ordinal (Date 1 1 1) = Inl ValueError"
    using gso_year_one [OF valid_0001_01_01] by (simp add: MINYEAR_def)
  moreover have "get_seasonal_ordinal (Date 1 1 2) = Inl ValueError"
    using gso_year_one [OF valid_0001_01_02] by (simp add: MINYEAR_def)
  moreover have "season_label (Date 1 1 1) = ''0/1''" "season_label (Date 1 1 2) = ''0/1''"
    by (simp_all add: season_label_def year_start_def year_end_def str_int_def str_nat.simps
        digit_char_def)
  ultimately show ?thesis
    using valid_0001_01_01 valid_0001_01_02 by (simp add: less_eq_date_def)
qed

section \<open>The call leaves its argument as it was\<close>

lemma df_temp_rows_labelled:
  "df_temp_rows \<lparr>df_rows = rows, df_Seizoen = Some (map (\<lambda>r. season_label (idx r)) rows)\<rparr>
     = add_Seizoen rows"
  by (simp add: df_temp_rows_def add_Seizoen_def zip_map2 zip_same_conv_map)

lemma heap_call_unfold:
  assumes "df < length h"
  shows "calculate_snow_records_heap h df =
     (calculate_snow_records (df_rows (h ! df)),
      h @ [\<lparr>df_rows = df_rows (h ! df),
             df_Seizoen = Some (map (\<lambda>r. season_label (idx r)) (df_rows (h ! df)))\<rparr>])"
proof -
  have "df_temp_rows ((h ! df)\<lparr>df_Seizoen := Some (map (\<lambda>r. season_label (idx r)) (df_rows (h ! df)))\<rparr>)
      = add_Seizoen (df_rows (h ! df))"
    using df_temp_rows_labelled [of "df_rows (h ! df)"]
    by (cases "h ! df") simp
  then show ?thesis
    by (cases "h ! df")
       (simp add: calculate_snow_records_heap_def df_copy_def df_set_Seizoen_def
          calculate_snow_records_def nth_append)
qed

text \<open>
  C10: the call of \<^verbatim>\<open>calculate_snow_records\<close> on a DataFrame object leaves
  every object that existed before the call as it was, the argument included (rows and
  label column): the label column is written into the copy, a new object. The result is
  the one computed from the argument's rows.
\<close>

theorem input_not_modified:
  assumes "df < length h"
  shows "take (length h) (snd (calculate_snow_records_heap h df)) = h \<and>
         snd (calculate_snow_records_heap h df) ! df = h ! df \<and>
         fst (calculate_snow_records_heap h df) = calculate_snow_records (df_rows (h ! df))"
  using assms by (simp add: heap_call_unfold nth_append)

theorem input_not_modified_witness:
  "(0::nat) < length [\<lparr>df_rows = [\<lparr>idx = Date 2020 7 1, depth_cm = 1\<rparr>], df_Seizoen = None\<rparr>] \<and>
   snd (calculate_snow_records_heap
          [\<lparr>df_rows = [\<lparr>idx = Date 2020 7 1, depth_cm = 1\<rparr>], df_Seizoen = None\<rparr>] 0) ! 0
     = \<lparr>df_rows = [\<lparr>idx = Date 2020 7 1, depth_cm = 1\<rparr>], df_Seizoen = None\<rparr>"
proof -
  have l: "(0::nat) < length [\<lparr>df_rows = [\<lparr>idx = Date 2020 7 1, depth_cm = 1\<rparr>], df_Seizoen = None\<rparr>]"
    by simp
  from input_not_modified [OF l] show ?thesis by simp
qed

section \<open>Groups, and when the engine returns\<close>

lemma groupby_member:
  assumes "(k, g) \<in> set (groupby_Seizoen rows)"
  shows "k \<in> Seizoen ` set rows" and "g = filter (\<lambda>r. Seizoen r = k) rows"
  using assms by (auto simp: groupby_Seizoen_def)

lemma groupby_nonempty:
  assumes "(k, g) \<in> set (groupby_Seizoen rows)"
  shows "g \<noteq> []"
proof -
  from groupby_member [OF assms] obtain r where "r \<in> set rows" "Seizoen r = k"
    and g: "g = filter (\<lambda>r. Seizoen r = k) rows"
    by auto
  then have "r \<in> set g" by simp
  then show ?thesis by auto
qed

lemma groupby_subset:
  assumes "(k, g) \<in> set (groupby_Seizoen rows)"
  shows "set g \<subseteq> set rows"
  using groupby_member(2) [OF assms] by auto

lemma earliest_snow_all_dates:
  assumes "(k, d) \<in> set (earliest_snow_all snow_days)"
  shows "d \<in> idx ` set snow_days"
proof -
  from assms obtain g where g: "(k, g) \<in> set (groupby_Seizoen snow_days)"
    and d: "d = Min (set (map idx g))"
    by (auto simp: earliest_snow_all_def)
  have "set (map idx g) \<noteq> {}" using groupby_nonempty [OF g] by simp
  then have "d \<in> set (map idx g)" unfolding d by (intro Min_in) simp_all
  then show ?thesis using groupby_subset [OF g] by auto
qed

lemma latest_snow_all_dates:
  assumes "(k, d) \<in> set (latest_snow_all snow_days)"
  shows "d \<in> idx ` set snow_days"
proof -
  from assms obtain g where g: "(k, g) \<in> set (groupby_Seizoen snow_days)"
    and d: "d = Max (set (map idx g))"
    by (auto simp: latest_snow_all_def)
  have "set (map idx g) \<noteq> {}" using groupby_nonempty [OF g] by simp
  then have "d \<in> set (map idx g)" unfolding d by (intro Max_in) simp_all
  then show ?thesis using groupby_subset [OF g] by auto
qed

lemma apply_seasonal_ordinal_returns:
  assumes "\<forall>(s, d) \<in> set xs. \<exists>n. get_seasonal_ordinal d = Inr n"
  shows "\<exists>ys. apply_seasonal_ordinal xs = Inr ys"
  using assms
proof (induction xs)
  case Nil
  show ?case by simp
next
  case (Cons x xs)
  obtain s d where x: "x = (s, d)" by (cases x)
  from Cons.prems x obtain n where n: "get_seasonal_ordinal d = Inr n" by auto
  from Cons.IH Cons.prems obtain ys where "apply_seasonal_ordinal xs = Inr ys" by auto
  with x n show ?case by simp
qed

lemma records_of_temp_None_iff:
  "(records_of_temp temp_df = Inr None) = (filter (\<lambda>r. depth_cm r > 0) temp_df = [])"
  by (simp add: records_of_temp_def Let_def split: sum.splits)

lemma snow_days_add_Seizoen:
  "(filter (\<lambda>r. depth_cm r > 0) (add_Seizoen df) = []) = (\<forall>r \<in> set df. \<not> 0 < depth_cm r)"
  by (auto simp: filter_empty_conv add_Seizoen_def)

lemma records_of_temp_returns:
  assumes "filter (\<lambda>r. depth_cm r > 0) temp_df \<noteq> []"
    and "\<forall>r \<in> set temp_df. 0 < depth_cm r \<longrightarrow> (\<exists>n. get_seasonal_ordinal (idx r) = Inr n)"
  shows "\<exists>rs. records_of_temp temp_df = Inr (Some rs)"
proof -
  define snow_days where "snow_days = filter (\<lambda>r. depth_cm r > 0) temp_df"
  have ok: "\<And>d. d \<in> idx ` set snow_days \<Longrightarrow> \<exists>n. get_seasonal_ordinal d = Inr n"
    using assms(2) by (auto simp: snow_days_def)
  have "\<forall>(s, d) \<in> set (earliest_snow_all snow_days). \<exists>n. get_seasonal_ordinal d = Inr n"
    using earliest_snow_all_dates ok by blast
  then obtain e where e: "apply_seasonal_ordinal (earliest_snow_all snow_days) = Inr e"
    using apply_seasonal_ordinal_returns by blast
  have "\<forall>(s, d) \<in> set (latest_snow_all snow_days). \<exists>n. get_seasonal_ordinal d = Inr n"
    using latest_snow_all_dates ok by blast
  then obtain l where l: "apply_seasonal_ordinal (latest_snow_all snow_days) = Inr l"
    using apply_seasonal_ordinal_returns by blast
  show ?thesis
    using assms(1) e l unfolding records_of_temp_def Let_def snow_days_def [symmetric]
    by simp
qed

lemma gso_error_is_ValueError:
  assumes "get_seasonal_ordinal d = Inl e"
  shows "e = ValueError"
proof -
  have n: "date_new y m k = Inl e' \<Longrightarrow> e' = ValueError" for y m k e'
    by (simp add: date_new_def split: if_splits)
  from assms show ?thesis
    by (auto simp: get_seasonal_ordinal_def get_seasonal_ordinal_traced_def date_replace_def
        Let_def split: sum.splits error.splits if_splits dest: n)
qed

lemma apply_seasonal_ordinal_error:
  "apply_seasonal_ordinal xs = Inl e \<Longrightarrow> e = ValueError"
proof (induction xs)
  case Nil
  then show ?case by simp
next
  case (Cons x xs)
  obtain s d where x: "x = (s, d)" by (cases x)
  from Cons x show ?case
    by (auto split: sum.splits dest: gso_error_is_ValueError)
qed

lemma apply_seasonal_ordinal_raises:
  assumes "(s, d) \<in> set xs" "get_seasonal_ordinal d = Inl ValueError"
  shows "apply_seasonal_ordinal xs = Inl ValueError"
proof -
  have "\<exists>e. apply_seasonal_ordinal xs = Inl e"
    using assms(1)
  proof (induction xs)
    case Nil
    then show ?case by simp
  next
    case (Cons x xs)
    obtain s' d' where x: "x = (s', d')" by (cases x)
    show ?case
    proof (cases "x = (s, d)")
      case True
      with x assms(2) show ?thesis by simp
    next
      case False
      with Cons.prems have "(s, d) \<in> set xs" by simp
      from Cons.IH [OF this] x show ?thesis by (auto split: sum.splits)
    qed
  qed
  then show ?thesis using apply_seasonal_ordinal_error by blast
qed

lemma earliest_snow_all_group:
  assumes "r \<in> set snow_days"
  shows "\<exists>d r'. (Seizoen r, d) \<in> set (earliest_snow_all snow_days) \<and>
           r' \<in> set snow_days \<and> Seizoen r' = Seizoen r \<and> d = idx r'"
proof -
  define g where "g = filter (\<lambda>r'. Seizoen r' = Seizoen r) snow_days"
  have g: "(Seizoen r, g) \<in> set (groupby_Seizoen snow_days)"
    using assms by (auto simp: groupby_Seizoen_def g_def)
  then have e: "(Seizoen r, Min (set (map idx g))) \<in> set (earliest_snow_all snow_days)"
    by (force simp: earliest_snow_all_def)
  have "set (map idx g) \<noteq> {}" using groupby_nonempty [OF g] by simp
  then have "Min (set (map idx g)) \<in> set (map idx g)" by (intro Min_in) simp_all
  then obtain r' where "r' \<in> set g" "Min (set (map idx g)) = idx r'" by auto
  with e show ?thesis unfolding g_def by auto
qed

lemma year_one_first_half:
  assumes "valid_date d" "year_start d < MINYEAR"
  shows "month d < 7 \<and> year d = MINYEAR"
  using assms valid_date_year [of d] by (auto simp: year_start_def split: if_splits)

lemma calculate_snow_records_raises:
  assumes "\<forall>r \<in> set df. valid_date (idx r)"
    and "r \<in> set df" "0 < depth_cm r" "month (idx r) < 7" "year (idx r) = MINYEAR"
  shows "calculate_snow_records df = Inl ValueError"
proof -
  define snow_days where "snow_days = filter (\<lambda>r. depth_cm r > 0) (add_Seizoen df)"
  define tr where
    "tr = \<lparr>idx = idx r, depth_cm = depth_cm r, Seizoen = season_label (idx r)\<rparr>"
  have tr: "tr \<in> set snow_days"
    using assms(2,3) by (auto simp: snow_days_def add_Seizoen_def tr_def)
  then have ne: "snow_days \<noteq> []" by auto
  from earliest_snow_all_group [OF tr] obtain d r' where d:
    "(Seizoen tr, d) \<in> set (earliest_snow_all snow_days)"
    "r' \<in> set snow_days" "Seizoen r' = Seizoen tr" "d = idx r'"
    by blast
  from d(2) obtain r0 where r0: "r0 \<in> set df" "idx r' = idx r0"
    "Seizoen r' = season_label (idx r0)"
    by (auto simp: snow_days_def add_Seizoen_def)
  have "season_label (idx r0) = season_label (idx r)"
    using d(3) r0(3) by (simp add: tr_def)
  then have "year_start (idx r0) = year_start (idx r)" by (simp add: season_label_eq_iff)
  moreover have "year_start (idx r) < MINYEAR" using assms(4,5) by (simp add: year_start_def)
  ultimately have "year_start (idx r0) < MINYEAR" by simp
  moreover have v: "valid_date (idx r0)" using assms(1) r0(1) by simp
  ultimately have "month (idx r0) < 7 \<and> year (idx r0) = MINYEAR"
    by (intro year_one_first_half)
  with v have "get_seasonal_ordinal (idx r0) = Inl ValueError" by (intro gso_year_one) simp_all
  then have "get_seasonal_ordinal d = Inl ValueError" using d(4) r0(2) by simp
  with d(1) have "apply_seasonal_ordinal (earliest_snow_all snow_days) = Inl ValueError"
    by (rule apply_seasonal_ordinal_raises)
  with ne show ?thesis
    unfolding calculate_snow_records_def records_of_temp_def Let_def snow_days_def [symmetric]
    by simp
qed

lemma valid_0001_03_01: "valid_date (Date 1 3 1)"
  by (simp add: valid_date_def MINYEAR_def MAXYEAR_def days_in_month_def)

text \<open>
  C5, as amended: for every daily series, \<^verbatim>\<open>calculate_snow_records\<close> returns None
  exactly when no entry has a depth above 0; so an all-zero series yields None, not a
  record set; and a series of valid dates with an entry above 0 yields a record set,
  provided none of its snow days lies in January-June of year 1. Where one does,
  \<^verbatim>\<open>get_seasonal_ordinal\<close> raises ValueError and the call leaves with it.
\<close>

theorem no_records_signal:
  "(calculate_snow_records df = Inr None) = (\<forall>r \<in> set df. \<not> 0 < depth_cm r) \<and>
   ((\<forall>r \<in> set df. depth_cm r = 0) \<longrightarrow> calculate_snow_records df = Inr None) \<and>
   ((\<forall>r \<in> set df. valid_date (idx r)) \<and> (\<exists>r \<in> set df. 0 < depth_cm r) \<longrightarrow>
      (if \<exists>r \<in> set df. 0 < depth_cm r \<and> month (idx r) < 7 \<and> year (idx r) = MINYEAR
       then calculate_snow_records df = Inl ValueError
       else \<exists>rs. calculate_snow_records df = Inr (Some rs)))"
proof -
  have iff: "(calculate_snow_records df = Inr None) = (\<forall>r \<in> set df. \<not> 0 < depth_cm r)"
    by (simp add: calculate_snow_records_def records_of_temp_None_iff snow_days_add_Seizoen)
  have some: "\<exists>rs. calculate_snow_records df = Inr (Some rs)"
    if v: "\<forall>r \<in> set df. valid_date (idx r)" and sn: "\<exists>r \<in> set df. 0 < depth_cm r"
      and no: "\<not> (\<exists>r \<in> set df. 0 < depth_cm r \<and> month (idx r) < 7 \<and> year (idx r) = MINYEAR)"
  proof -
    have ne: "filter (\<lambda>r. depth_cm r > 0) (add_Seizoen df) \<noteq> []"
      using sn by (simp add: snow_days_add_Seizoen)
    have "\<exists>n. get_seasonal_ordinal (idx r) = Inr n" if "r \<in> set df" "0 < depth_cm r" for r
    proof -
      from v that have vd: "valid_date (idx r)" by simp
      from no that have "7 \<le> month (idx r) \<or> year (idx r) \<noteq> MINYEAR" by auto
      with valid_date_year [OF vd] have "7 \<le> month (idx r) \<or> MINYEAR < year (idx r)"
        by auto
      with vd show ?thesis
        using gso_first_half [of "idx r"] gso_second_half [of "idx r"] by fastforce
    qed
    then have "\<forall>r \<in> set (add_Seizoen df). 0 < depth_cm r \<longrightarrow>
        (\<exists>n. get_seasonal_ordinal (idx r) = Inr n)"
      by (auto simp: add_Seizoen_def)
    with ne show ?thesis
      unfolding calculate_snow_records_def by (rule records_of_temp_returns)
  qed
  have raises: "calculate_snow_records df = Inl ValueError"
    if "\<forall>r \<in> set df. valid_date (idx r)"
      and "\<exists>r \<in> set df. 0 < depth_cm r \<and> month (idx r) < 7 \<and> year (idx r) = MINYEAR"
    using that calculate_snow_records_raises [of df] by blast
  from iff some raises show ?thesis by auto
qed

theorem no_records_signal_witness:
  "valid_date (Date 2020 7 1) \<and>
   calculate_snow_records [\<lparr>idx = Date 2020 7 1, depth_cm = 0\<rparr>] = Inr None \<and>
   (\<exists>rs. calculate_snow_records [\<lparr>idx = Date 2020 7 1, depth_cm = 2\<rparr>] = Inr (Some rs))"
proof -
  have a: "calculate_snow_records [\<lparr>idx = Date 2020 7 1, depth_cm = 0\<rparr>] = Inr None"
    using no_records_signal [of "[\<lparr>idx = Date 2020 7 1, depth_cm = 0\<rparr>]"] by simp
  have b: "\<exists>rs. calculate_snow_records [\<lparr>idx = Date 2020 7 1, depth_cm = 2\<rparr>] = Inr (Some rs)"
    using no_records_signal [of "[\<lparr>idx = Date 2020 7 1, depth_cm = 2\<rparr>]"] valid_2020_07_01
    by simp
  from a b valid_2020_07_01 show ?thesis by simp
qed

theorem snow_in_year_one_raises:
  "valid_date (Date 1 3 1) \<and> (0::real) < 5 \<and>
   calculate_snow_records [\<lparr>idx = Date 1 3 1, depth_cm = 5\<rparr>] = Inl ValueError"
proof -
  have g: "get_seasonal_ordinal (Date 1 3 1) = Inl ValueError"
    using gso_year_one [OF valid_0001_03_01] by (simp add: MINYEAR_def)
  have "calculate_snow_records [\<lparr>idx = Date 1 3 1, depth_cm = 5\<rparr>] = Inl ValueError"
    by (simp add: calculate_snow_records_def add_Seizoen_def records_of_temp_def
        earliest_snow_all_def groupby_Seizoen_def g)
  then show ?thesis using valid_0001_03_01 by simp
qed

section \<open>The ranking by maximum depth\<close>

lemma set_sort_values_desc [simp]: "set (sort_values_desc f xs) = set xs"
  by (simp add: sort_values_desc_def)

lemma length_sort_values_desc [simp]: "length (sort_values_desc f xs) = length xs"
  by (simp add: sort_values_desc_def)
















section \<open>Group numbers and runs\<close>

lemma runs_from_shape:
  "\<exists>r rs. runs_from p ds = (p # r) # rs"
  by (induction ds arbitrary: p) (auto split: list.splits)

lemma concat_runs_from: "concat (runs_from p ds) = p # ds"
proof (induction ds arbitrary: p)
  case Nil
  show ?case by simp
next
  case (Cons d ds)
  from runs_from_shape [of d ds] obtain r rs where s: "runs_from d ds = (d # r) # rs" by blast
  from Cons [of d] s show ?case by simp
qed

lemma runs_from_nonempty: "r \<in> set (runs_from p ds) \<Longrightarrow> r \<noteq> []"
proof (induction ds arbitrary: p r)
  case Nil
  then show ?case by simp
next
  case (Cons d ds)
  from runs_from_shape [of d ds] obtain r' rs where s: "runs_from d ds = (d # r') # rs" by blast
  from Cons.prems s Cons.IH [of r d] show ?case
    by (auto split: if_splits)
qed

lemma runs_from_successive:
  "r \<in> set (runs_from p ds) \<Longrightarrow> successively next_day r"
proof (induction ds arbitrary: p r)
  case Nil
  then show ?case by simp
next
  case (Cons d ds)
  from runs_from_shape [of d ds] obtain r' rs where s: "runs_from d ds = (d # r') # rs" by blast
  have "successively next_day (d # r')" using Cons.IH [of "d # r'" d] s by simp
  with Cons.prems s Cons.IH [of r d] show ?case
    by (auto simp: next_day_def split: if_splits)
qed

lemma runs_from_breaks:
  "successively (\<lambda>r r'. \<not> next_day (last r) (hd r')) (runs_from p ds)"
proof (induction ds arbitrary: p)
  case Nil
  show ?case by simp
next
  case (Cons d ds)
  from runs_from_shape [of d ds] obtain r' rs where s: "runs_from d ds = (d # r') # rs" by blast
  from Cons [of d] s show ?case
    by (auto simp: next_day_def successively_Cons)
qed

lemma length_run_ids: "length (run_ids g rs) = length (concat rs)"
  by (induction rs arbitrary: g) auto

lemma run_ids_ge: "j \<in> set (run_ids g rs) \<Longrightarrow> g \<le> j"
proof (induction rs arbitrary: g)
  case Nil
  then show ?case by simp
next
  case (Cons r rs)
  show ?case
  proof (cases "j \<in> set (run_ids (Suc g) rs)")
    case True
    then have "Suc g \<le> j" by (rule Cons.IH)
    then show ?thesis by simp
  next
    case False
    with Cons.prems show ?thesis by (auto split: if_splits)
  qed
qed

lemma groups_are_run_ids:
  "cumsum_from g (ne_1 (diff_days_from p ds)) = tl (run_ids g (runs_from p ds))"
proof (induction ds arbitrary: p g)
  case Nil
  show ?case by (simp add: ne_1_def)
next
  case (Cons d ds)
  from runs_from_shape [of d ds] obtain r rs where s: "runs_from d ds = (d # r) # rs" by blast
  show ?case
  proof (cases "toordinal d - toordinal p = 1")
    case True
    with s Cons [of g d] show ?thesis by (simp add: ne_1_def)
  next
    case False
    with s Cons [of "Suc g" d] show ?thesis by (simp add: ne_1_def)
  qed
qed

lemma consecutive_groups_run_ids: "consecutive_groups ds = run_ids 1 (runs ds)"
proof (cases ds)
  case Nil
  then show ?thesis
    by (simp add: consecutive_groups_def diff_days_def ne_1_def cumsum_def runs_def)
next
  case (Cons d rest)
  from runs_from_shape [of d rest] obtain r rs where s: "runs_from d rest = (d # r) # rs" by blast
  with Cons show ?thesis
    using groups_are_run_ids [of 1 d rest]
    by (simp add: consecutive_groups_def diff_days_def ne_1_def cumsum_def runs_def)
qed


lemma count_list_replicate: "count_list (replicate n x) y = (if x = y then n else 0)"
  by (induction n) auto

lemma members_of_group:
  assumes "\<forall>r \<in> set rs. r \<noteq> []" and "j \<in> set (run_ids g rs)"
  shows "\<exists>r \<in> set rs.
           map fst (filter (\<lambda>(d, i). i = j) (zip (concat rs) (run_ids g rs))) = r \<and>
           count_list (run_ids g rs) j = length r"
  using assms
proof (induction rs arbitrary: g)
  case Nil
  then show ?case by simp
next
  case (Cons r rs)
  have z: "zip (concat (r # rs)) (run_ids g (r # rs)) =
      zip r (replicate (length r) g) @ zip (concat rs) (run_ids (Suc g) rs)"
    by simp
  have tail_ids: "\<And>i. i \<in> set (run_ids (Suc g) rs) \<Longrightarrow> i \<noteq> g"
    using run_ids_ge [of _ "Suc g" rs] by fastforce
  show ?case
  proof (cases "j = g")
    case True
    have a: "filter (\<lambda>(d, i). i = j) (zip r (replicate (length r) g)) = zip r (replicate (length r) g)"
      using True by (auto simp: filter_id_conv dest: set_zip_rightD)
    have b: "filter (\<lambda>(d, i). i = j) (zip (concat rs) (run_ids (Suc g) rs)) = []"
      using True tail_ids by (auto simp: filter_empty_conv dest: set_zip_rightD)
    have c: "count_list (run_ids (Suc g) rs) g = 0"
      using tail_ids by (auto simp: count_list_0_iff)
    have "map fst (filter (\<lambda>(d, i). i = j) (zip (concat (r # rs)) (run_ids g (r # rs)))) = r"
      unfolding z by (simp add: a b)
    moreover have "count_list (run_ids g (r # rs)) j = length r"
      using True c by (simp add: count_list_replicate)
    ultimately show ?thesis by auto
  next
    case False
    then have a: "filter (\<lambda>(d, i). i = j) (zip r (replicate (length r) g)) = []"
      by (auto simp: filter_empty_conv dest: set_zip_rightD)
    from False Cons.prems(2) have j: "j \<in> set (run_ids (Suc g) rs)"
      by (auto split: if_splits)
    from Cons.prems(1) have "\<forall>r \<in> set rs. r \<noteq> []" by simp
    from Cons.IH [OF this j] obtain r' where r': "r' \<in> set rs"
      "map fst (filter (\<lambda>(d, i). i = j) (zip (concat rs) (run_ids (Suc g) rs))) = r'"
      "count_list (run_ids (Suc g) rs) j = length r'"
      by blast
    have "map fst (filter (\<lambda>(d, i). i = j) (zip (concat (r # rs)) (run_ids g (r # rs)))) = r'"
      unfolding z using a r'(2) by simp
    moreover have "count_list (run_ids g (r # rs)) j = length r'"
      using False r'(3) by (simp add: count_list_replicate)
    ultimately show ?thesis using r'(1) by auto
  qed
qed

lemma run_has_group:
  assumes "\<forall>r \<in> set rs. r \<noteq> []" and "r \<in> set rs"
  shows "\<exists>j \<in> set (run_ids g rs). count_list (run_ids g rs) j = length r"
  using assms
proof (induction rs arbitrary: g)
  case Nil
  then show ?case by simp
next
  case (Cons r' rs)
  have tail_ids: "\<And>i. i \<in> set (run_ids (Suc g) rs) \<Longrightarrow> i \<noteq> g"
    using run_ids_ge [of _ "Suc g" rs] by fastforce
  show ?case
  proof (cases "r = r'")
    case True
    have "count_list (run_ids (Suc g) rs) g = 0"
      using tail_ids by (auto simp: count_list_0_iff)
    moreover have "r' \<noteq> []" using Cons.prems(1) by simp
    ultimately show ?thesis using True by (auto simp: count_list_replicate)
  next
    case False
    with Cons.prems have "r \<in> set rs" "\<forall>r \<in> set rs. r \<noteq> []" by simp_all
    from Cons.IH [OF this(2,1)] obtain j where j: "j \<in> set (run_ids (Suc g) rs)"
      "count_list (run_ids (Suc g) rs) j = length r"
      by blast
    then have "j \<noteq> g" using tail_ids by blast
    with j show ?thesis by (auto simp: count_list_replicate)
  qed
qed

lemma set_value_counts:
  "set (value_counts G) = (\<lambda>j. (j, count_list G j)) ` set G"
  by (simp add: value_counts_def unique_def)

lemma idxmax_value_counts:
  assumes "G \<noteq> []"
  shows "idxmax (value_counts G) \<in> set G \<and>
         count_list G (idxmax (value_counts G)) = Max (set (map snd (value_counts G))) \<and>
         (\<forall>j. count_list G j \<le> Max (set (map snd (value_counts G))))"
proof -
  define vc where "vc = value_counts G"
  define M where "M = Max (set (map snd vc))"
  have ne: "set (map snd vc) \<noteq> {}"
    using assms by (simp add: vc_def set_value_counts)
  then have "M \<in> set (map snd vc)" unfolding M_def by (intro Max_in) simp_all
  then have "filter (\<lambda>p. snd p = M) vc \<noteq> []"
    by (auto simp: filter_empty_conv)
  then have "hd (filter (\<lambda>p. snd p = M) vc) \<in> set (filter (\<lambda>p. snd p = M) vc)"
    by (rule hd_in_set)
  then have h: "hd (filter (\<lambda>p. snd p = M) vc) \<in> set vc" "snd (hd (filter (\<lambda>p. snd p = M) vc)) = M"
    by simp_all
  define j where "j = fst (hd (filter (\<lambda>p. snd p = M) vc))"
  have eq: "(\<lambda>(g, c). c = M) = (\<lambda>p::nat \<times> nat. snd p = M)"
    by (simp add: fun_eq_iff)
  have i: "idxmax vc = j"
    unfolding idxmax_def M_def [symmetric] j_def by (simp only: eq)
  from h(1) have "(j, snd (hd (filter (\<lambda>p. snd p = M) vc))) \<in> set vc"
    by (simp add: j_def)
  with h(2) have "(j, M) \<in> set vc" by simp
  then have jc: "j \<in> set G" "M = count_list G j"
    by (auto simp: vc_def set_value_counts)
  have ub: "count_list G k \<le> M" for k
  proof (cases "k \<in> set G")
    case True
    then have "count_list G k \<in> set (map snd vc)"
      by (force simp: vc_def set_value_counts)
    then show ?thesis unfolding M_def by (intro Max_ge) simp_all
  next
    case False
    then show ?thesis by simp
  qed
  from i jc ub show ?thesis unfolding vc_def M_def by auto
qed


section \<open>Runs of valid dates\<close>

lemma next_day_less:
  assumes "valid_date a" "valid_date b" "next_day a b"
  shows "a < b"
proof (rule ccontr)
  assume "\<not> a < b"
  then have "b \<le> a" by simp
  then have "toordinal b \<le> toordinal a" using toordinal_le_iff [OF assms(2,1)] by simp
  with assms(3) show False by (simp add: next_day_def)
qed

lemma run_ascending:
  assumes "successively next_day r" "\<forall>d \<in> set r. valid_date d"
  shows "sorted_wrt (<) r"
proof -
  have "successively (<) r"
    using assms(1)
  proof (rule successively_mono)
    fix x y
    assume "x \<in> set r" "y \<in> set r" "next_day x y"
    with assms(2) show "x < y" by (intro next_day_less) auto
  qed
  moreover have "transp ((<) :: date \<Rightarrow> date \<Rightarrow> bool)" by (auto simp: transp_def)
  ultimately show ?thesis by (simp add: successively_conv_sorted_wrt)
qed

lemma ascending_Min:
  assumes "sorted_wrt (<) (r :: date list)" "r \<noteq> []"
  shows "Min (set r) = hd r"
proof (rule Min_eqI)
  show "finite (set r)" by simp
  show "hd r \<in> set r" using assms(2) by simp
  fix y assume "y \<in> set r"
  with assms show "hd r \<le> y" by (cases r) auto
qed

lemma ascending_Max:
  assumes "sorted_wrt (<) (r :: date list)" "r \<noteq> []"
  shows "Max (set r) = last r"
proof (rule Max_eqI)
  show "finite (set r)" by simp
  show "last r \<in> set r" using assms(2) by simp
  fix y assume y: "y \<in> set r"
  have "sorted_wrt (\<lambda>a b. b < a) (rev r)" using assms(1) by (simp add: sorted_wrt_rev)
  moreover have "rev r = last r # rev (butlast r)"
    using assms(2) by (metis append_butlast_last_id rev.simps(2) rev_rev_ident rev_singleton_conv rev_append append_Cons append_Nil)
  ultimately have "\<forall>z \<in> set (rev (butlast r)). z < last r" by simp
  moreover have "y = last r \<or> y \<in> set (butlast r)"
    using y assms(2) by (metis append_butlast_last_id in_set_conv_decomp rotate1.simps(2) set_ConsD set_rotate1)
  ultimately show "y \<le> last r" by auto
qed

lemma run_span:
  assumes "successively next_day r" "r \<noteq> []"
  shows "toordinal (last r) = toordinal (hd r) + int (length r) - 1"
  using assms
proof (induction r rule: induct_list012)
  case 1
  then show ?case by simp
next
  case (2 x)
  show ?case by simp
next
  case (3 x y zs)
  then have "toordinal (last (y # zs)) = toordinal y + int (length (y # zs)) - 1" by simp
  moreover have "toordinal y = toordinal x + 1" using "3.prems" by (simp add: next_day_def)
  ultimately show ?case by simp
qed

section \<open>The longest streak is a longest run\<close>

lemma runs_properties:
  "concat (runs ds) = ds"
  "r \<in> set (runs ds) \<Longrightarrow> r \<noteq> [] \<and> successively next_day r"
  "successively (\<lambda>r r'. \<not> next_day (last r) (hd r')) (runs ds)"
proof -
  show "concat (runs ds) = ds"
    by (cases ds) (simp_all add: runs_def concat_runs_from)
  show "r \<in> set (runs ds) \<Longrightarrow> r \<noteq> [] \<and> successively next_day r"
    by (cases ds) (auto simp: runs_def dest: runs_from_nonempty runs_from_successive)
  show "successively (\<lambda>r r'. \<not> next_day (last r) (hd r')) (runs ds)"
    by (cases ds) (simp_all add: runs_def runs_from_breaks)
qed

lemma longest_streak_run:
  assumes "ds \<noteq> []" and "\<forall>d \<in> set ds. valid_date d"
  shows "\<exists>r \<in> set (runs ds). longest_streak ds = (length r, hd r, last r) \<and>
           (\<forall>r' \<in> set (runs ds). length r' \<le> length r)"
proof -
  define G where "G = consecutive_groups ds"
  define M where "M = Max (set (map snd (value_counts G)))"
  define j where "j = idxmax (value_counts G)"
  have G: "G = run_ids 1 (runs ds)" unfolding G_def by (rule consecutive_groups_run_ids)
  have ne: "\<forall>r \<in> set (runs ds). r \<noteq> []" using runs_properties(2) by blast
  have "length G = length ds"
    unfolding G by (simp add: length_run_ids runs_properties(1))
  with assms(1) have "G \<noteq> []" by auto
  from idxmax_value_counts [OF this]
  have j: "j \<in> set G" "count_list G j = M" and ub: "\<And>k. count_list G k \<le> M"
    unfolding j_def M_def by auto
  from members_of_group [OF ne j(1) [unfolded G]]
  obtain r where r: "r \<in> set (runs ds)"
    "map fst (filter (\<lambda>(d, i). i = j) (zip ds G)) = r" "M = length r"
    using j(2) unfolding G runs_properties(1) by auto
  have succ: "successively next_day r" and rne: "r \<noteq> []"
    using runs_properties(2) [OF r(1)] by simp_all
  have "set r \<subseteq> set ds"
    using r(1) runs_properties(1) [of ds] by (metis concat_eq_concat_iff set_concat UN_I subsetI)
  then have asc: "sorted_wrt (<) r" using succ assms(2) by (intro run_ascending) auto
  have ls: "longest_streak ds = (M, Min (set r), Max (set r))"
    unfolding longest_streak_def Let_def G_def [symmetric]
    unfolding M_def [symmetric] j_def [symmetric]
    unfolding r(2) by (rule refl)
  have longest: "length r' \<le> length r" if "r' \<in> set (runs ds)" for r'
  proof -
    from run_has_group [OF ne that, of 1] obtain k where "count_list G k = length r'"
      unfolding G by blast
    with ub [of k] r(3) show ?thesis by simp
  qed
  from ls r(3) ascending_Min [OF asc rne] ascending_Max [OF asc rne] r(1) longest
  show ?thesis by auto
qed


lemma snow_dates_add_Seizoen:
  "map idx (filter (\<lambda>r. depth_cm r > 0) (add_Seizoen df)) = snow_dates df"
  by (induction df) (simp_all add: add_Seizoen_def snow_dates_def)

lemma records_of_temp_streak:
  assumes "calculate_snow_records df = Inr (Some rs)"
  shows "snow_dates df \<noteq> [] \<and>
         Absoluut_Langste_Periode rs = Some (format_streak (longest_streak (snow_dates df)))"
proof -
  have ne: "filter (\<lambda>r. depth_cm r > 0) (add_Seizoen df) \<noteq> []"
    using assms by (auto simp: calculate_snow_records_def records_of_temp_def Let_def)
  then have "snow_dates df \<noteq> []"
    using snow_dates_add_Seizoen [of df] by (metis map_is_Nil_conv)
  moreover have "Absoluut_Langste_Periode rs =
      Some (format_streak (longest_streak (snow_dates df)))"
    using assms ne \<open>snow_dates df \<noteq> []\<close>
    by (auto simp: calculate_snow_records_def records_of_temp_def Let_def
        snow_dates_add_Seizoen split: sum.splits)
  ultimately show ?thesis by simp
qed

lemma snow_dates_sorted:
  assumes "sorted_wrt (<) (map idx df)"
  shows "sort (snow_dates df) = snow_dates df"
proof -
  have "sorted_wrt (\<lambda>a b. idx a < idx b) df" using assms by (simp add: sorted_wrt_map)
  then have "sorted_wrt (\<lambda>a b. idx a < idx b) (filter (\<lambda>r. depth_cm r > 0) df)"
    by (rule sorted_wrt_filter)
  then have "sorted_wrt (<) (snow_dates df)" by (simp add: snow_dates_def sorted_wrt_map)
  then have "sorted (snow_dates df)" by (rule strict_sorted_imp_sorted)
  then show ?thesis by (rule sorted_sort_id)
qed

lemma streak_example_records:
  "calculate_snow_records streak_example =
   Inr (Some \<lparr>Top_10_Hoogste_Max = [(''2020/2021'', 6)],
          Top_10_Vroegste_Start_Sneeuwdek = [(''01-12'', ''2020/2021'')],
          Top_10_Laatste_Start_Sneeuwdek = [(''01-12'', ''2020/2021'')],
          Top_10_Vroegste_Einde_Sneeuwdek = [(''10-12'', ''2020/2021'')],
          Top_10_Laatste_Einde_Sneeuwdek = [(''10-12'', ''2020/2021'')],
          Top_10_Meeste_Dagen = [(''2020/2021'', 9)],
          Absoluut_Langste_Periode = Some ''5 dagen (01-12-2020 t/m 05-12-2020)'',
          Totaal_Dagen_met_Sneeuw = Some 9\<rparr>)"
  by code_simp

lemma streak_example_valid: "\<forall>r \<in> set streak_example. valid_date (idx r)"
  by (simp add: streak_example_def valid_date_def MINYEAR_def MAXYEAR_def days_in_month_def)

lemma streak_example_sorted: "sorted_wrt (<) (map idx streak_example)"
  by (simp add: streak_example_def less_date_def)

section \<open>The streak text tells its parts\<close>

lemma digit_char_is_digit: "k < 10 \<Longrightarrow> is_digit (digit_char k)"
  using digit_cases [of k] by (auto simp: digit_char_def is_digit_def)

lemma str_nat_digits: "c \<in> set (str_nat n) \<Longrightarrow> is_digit c"
proof (induction n rule: str_nat.induct)
  case (1 n)
  show ?case
  proof (cases "n < 10")
    case True
    with "1.prems" show ?thesis
      using digit_char_is_digit [of n] by (simp add: str_nat.simps [of n])
  next
    case False
    have "is_digit (digit_char (n mod 10))" by (rule digit_char_is_digit) simp
    with False "1.IH" "1.prems" show ?thesis
      by (auto simp: str_nat.simps [of n])
  qed
qed

lemma zero_pad_digits:
  assumes "c \<in> set (zero_pad w (str_nat n))"
  shows "is_digit c"
proof -
  have z: "is_digit CHR ''0''" by (simp add: is_digit_def)
  from assms have "c = CHR ''0'' \<or> c \<in> set (str_nat n)"
    by (auto simp: zero_pad_def)
  with z str_nat_digits show ?thesis by blast
qed

lemma parse_nat_zeros: "parse_nat (replicate k CHR ''0'' @ s) = parse_nat s"
proof -
  have "foldl (\<lambda>a c. 10 * a + digit_val c) 0 (replicate k CHR ''0'') = 0"
    by (induction k) (simp_all add: digit_val_def)
  then show ?thesis by (simp add: parse_nat_def)
qed

lemma parse_nat_zero_pad: "parse_nat (zero_pad w (str_nat n)) = n"
  by (simp add: zero_pad_def parse_nat_zeros parse_nat_str_nat)

lemma read_nat_append:
  assumes "\<forall>c \<in> set u. is_digit c" and "rest = [] \<or> \<not> is_digit (hd rest)"
  shows "read_nat (u @ rest) = (parse_nat u, rest)"
proof -
  have "takeWhile is_digit rest = []" "dropWhile is_digit rest = rest"
    using assms(2) by (cases rest; simp)+
  with assms(1) show ?thesis
    by (simp add: read_nat_def takeWhile_append2 dropWhile_append2)
qed

lemma str_int_nonneg: "0 \<le> k \<Longrightarrow> str_int k = str_nat (nat k)"
  by (simp add: str_int_def)

lemma parse_date_strftime:
  assumes "0 \<le> day a" "0 \<le> month a" "0 \<le> year a"
    and "rest = [] \<or> \<not> is_digit (hd rest)"
  shows "parse_date (strftime_dmY a @ rest) = (a, rest)"
proof -
  let ?dd = "zero_pad 2 (str_nat (nat (day a)))"
  let ?mm = "zero_pad 2 (str_nat (nat (month a)))"
  let ?yy = "str_nat (nat (year a))"
  have f: "strftime_dmY a @ rest = ?dd @ (CHR ''-'' # ?mm @ (CHR ''-'' # ?yy @ rest))"
    using assms(1-3) by (simp add: strftime_dmY_def strftime_dm_def str_int_nonneg)
  have nd: "\<not> is_digit CHR ''-''" by (simp add: is_digit_def)
  have r1: "read_nat (?dd @ (CHR ''-'' # ?mm @ (CHR ''-'' # ?yy @ rest))) =
      (nat (day a), CHR ''-'' # ?mm @ (CHR ''-'' # ?yy @ rest))"
    using zero_pad_digits nd by (subst read_nat_append) (auto simp: parse_nat_zero_pad)
  have r2: "read_nat (?mm @ (CHR ''-'' # ?yy @ rest)) = (nat (month a), CHR ''-'' # ?yy @ rest)"
    using zero_pad_digits nd by (subst read_nat_append) (auto simp: parse_nat_zero_pad)
  have r3: "read_nat (?yy @ rest) = (nat (year a), rest)"
    using str_nat_digits assms(4) by (subst read_nat_append) (auto simp: parse_nat_str_nat)
  show ?thesis
    unfolding f parse_date_def r1 using assms(1-3)
    by (simp add: r2 r3)
qed

lemma parse_streak_parts:
  assumes "0 \<le> day a" "0 \<le> month a" "0 \<le> year a"
    and "0 \<le> day b" "0 \<le> month b" "0 \<le> year b"
    and "length p8 = 8" "\<not> is_digit (hd p8)" "length p5 = 5" "\<not> is_digit (hd p5)"
    and "p1 = [] \<or> \<not> is_digit (hd p1)"
  shows "parse_streak (str_nat n @ (p8 @ (strftime_dmY a @ (p5 @ (strftime_dmY b @ p1))))) = (n, a, b)"
proof -
  have ne: "p8 \<noteq> []" "p5 \<noteq> []" using assms(7,9) by auto
  have r0: "read_nat (str_nat n @ (p8 @ (strftime_dmY a @ (p5 @ (strftime_dmY b @ p1))))) =
      (n, p8 @ (strftime_dmY a @ (p5 @ (strftime_dmY b @ p1))))"
    using str_nat_digits assms(8) ne by (subst read_nat_append) (auto simp: parse_nat_str_nat)
  have pa: "parse_date (strftime_dmY a @ (p5 @ (strftime_dmY b @ p1))) =
      (a, p5 @ (strftime_dmY b @ p1))"
    using assms(1-3,10) ne by (intro parse_date_strftime) simp_all
  have pb: "parse_date (strftime_dmY b @ p1) = (b, p1)"
    using assms(4-6,11) by (intro parse_date_strftime) simp_all
  show ?thesis
    unfolding parse_streak_def r0 using assms(7,9) by (simp add: pa pb)
qed

lemma parse_streak_format:
  assumes "0 \<le> day a" "0 \<le> month a" "0 \<le> year a"
    and "0 \<le> day b" "0 \<le> month b" "0 \<le> year b"
  shows "parse_streak (format_streak (n, a, b)) = (n, a, b)"
  using parse_streak_parts [OF assms, of "'' dagen (''" "'' t/m ''" "'')''" n]
  by (simp add: format_streak_def is_digit_def)

lemma valid_date_nonneg: "valid_date d \<Longrightarrow> 0 \<le> day d \<and> 0 \<le> month d \<and> 0 \<le> year d"
  by (simp add: valid_date_def MINYEAR_def)

lemma snow_dates_Nil_iff: "(snow_dates df = []) = (\<forall>r \<in> set df. \<not> 0 < depth_cm r)"
  by (auto simp: snow_dates_def filter_empty_conv)

lemma valid_0001_02_01: "valid_date (Date 1 2 1)"
  by (simp add: valid_date_def MINYEAR_def MAXYEAR_def days_in_month_def)

lemma valid_0001_02_02: "valid_date (Date 1 2 2)"
  by (simp add: valid_date_def MINYEAR_def MAXYEAR_def days_in_month_def)

text \<open>
  C6, as amended: for every daily series of valid dates, the snow days of the whole
  series (not of a season) fall into runs: the runs joined give the snow days back,
  inside a run each day is the day after the one before it, and between two
  neighbouring runs it is not; where the series is in date order the snow days are in
  sorted order. With no snow day the engine returns None. With a snow day in
  January-June of year 1 the call raises ValueError. Otherwise it returns a record set
  whose streak text is built from the length, first day and last day of one of these
  runs, and read back gives exactly these three; no run is longer, and from its first
  to its last day there are exactly that many days. For the series with snow on
  2020-12-01..05, none on 2020-12-06 and snow on 2020-12-07..10 the engine reports the
  first run, 5 days.
\<close>

theorem longest_streak_is_longest_run:
  assumes "\<forall>r \<in> set df. valid_date (idx r)"
  shows "concat (runs (snow_dates df)) = snow_dates df \<and>
         (sorted_wrt (<) (map idx df) \<longrightarrow> sort (snow_dates df) = snow_dates df) \<and>
         (\<forall>r \<in> set (runs (snow_dates df)). r \<noteq> [] \<and> successively next_day r) \<and>
         successively (\<lambda>r r'. \<not> next_day (last r) (hd r')) (runs (snow_dates df)) \<and>
         (snow_dates df = [] \<longrightarrow> calculate_snow_records df = Inr None) \<and>
         (snow_dates df \<noteq> [] \<longrightarrow>
            (if \<exists>r \<in> set df. 0 < depth_cm r \<and> month (idx r) < 7 \<and> year (idx r) = MINYEAR
             then calculate_snow_records df = Inl ValueError
             else \<exists>rs reported r.
                    calculate_snow_records df = Inr (Some rs) \<and>
                    Absoluut_Langste_Periode rs = Some reported \<and>
                    r \<in> set (runs (snow_dates df)) \<and>
                    longest_streak (snow_dates df) = (length r, hd r, last r) \<and>
                    reported = format_streak (length r, hd r, last r) \<and>
                    parse_streak reported = (length r, hd r, last r) \<and>
                    (\<forall>r' \<in> set (runs (snow_dates df)). length r' \<le> length r) \<and>
                    toordinal (last r) = toordinal (hd r) + int (length r) - 1)) \<and>
         calculate_snow_records streak_example =
           Inr (Some \<lparr>Top_10_Hoogste_Max = [(''2020/2021'', 6)],
             Top_10_Vroegste_Start_Sneeuwdek = [(''01-12'', ''2020/2021'')],
             Top_10_Laatste_Start_Sneeuwdek = [(''01-12'', ''2020/2021'')],
             Top_10_Vroegste_Einde_Sneeuwdek = [(''10-12'', ''2020/2021'')],
             Top_10_Laatste_Einde_Sneeuwdek = [(''10-12'', ''2020/2021'')],
             Top_10_Meeste_Dagen = [(''2020/2021'', 9)],
             Absoluut_Langste_Periode = Some ''5 dagen (01-12-2020 t/m 05-12-2020)'',
             Totaal_Dagen_met_Sneeuw = Some 9\<rparr>)"
proof -
  define ds where "ds = snow_dates df"
  have v: "\<forall>d \<in> set ds. valid_date d"
    using assms by (auto simp: ds_def snow_dates_def)
  have none: "calculate_snow_records df = Inr None" if "ds = []"
    using that
    by (simp add: ds_def snow_dates_Nil_iff calculate_snow_records_def records_of_temp_None_iff
        snow_days_add_Seizoen)
  have raises: "calculate_snow_records df = Inl ValueError"
    if "\<exists>r \<in> set df. 0 < depth_cm r \<and> month (idx r) < 7 \<and> year (idx r) = MINYEAR"
    using that assms calculate_snow_records_raises [of df] by blast
  have reports: "\<exists>rs reported r.
      calculate_snow_records df = Inr (Some rs) \<and>
      Absoluut_Langste_Periode rs = Some reported \<and>
      r \<in> set (runs ds) \<and>
      longest_streak ds = (length r, hd r, last r) \<and>
      reported = format_streak (length r, hd r, last r) \<and>
      parse_streak reported = (length r, hd r, last r) \<and>
      (\<forall>r' \<in> set (runs ds). length r' \<le> length r) \<and>
      toordinal (last r) = toordinal (hd r) + int (length r) - 1"
    if ne: "ds \<noteq> []"
      and no: "\<not> (\<exists>r \<in> set df. 0 < depth_cm r \<and> month (idx r) < 7 \<and> year (idx r) = MINYEAR)"
  proof -
    have sn: "\<exists>r \<in> set df. 0 < depth_cm r"
      using ne by (simp add: ds_def snow_dates_Nil_iff)
    have "\<exists>n. get_seasonal_ordinal (idx r) = Inr n" if "r \<in> set df" "0 < depth_cm r" for r
    proof -
      from assms that have vd: "valid_date (idx r)" by simp
      from no that have "7 \<le> month (idx r) \<or> year (idx r) \<noteq> MINYEAR" by auto
      with valid_date_year [OF vd] have "7 \<le> month (idx r) \<or> MINYEAR < year (idx r)"
        by auto
      with vd show ?thesis
        using gso_first_half [of "idx r"] gso_second_half [of "idx r"] by fastforce
    qed
    then have "\<forall>r \<in> set (add_Seizoen df). 0 < depth_cm r \<longrightarrow>
        (\<exists>n. get_seasonal_ordinal (idx r) = Inr n)"
      by (auto simp: add_Seizoen_def)
    moreover have "filter (\<lambda>r. depth_cm r > 0) (add_Seizoen df) \<noteq> []"
      using sn by (simp add: snow_days_add_Seizoen)
    ultimately obtain rs where rs: "calculate_snow_records df = Inr (Some rs)"
      unfolding calculate_snow_records_def using records_of_temp_returns by blast
    have a: "Absoluut_Langste_Periode rs = Some (format_streak (longest_streak ds))"
      using records_of_temp_streak [OF rs] by (simp add: ds_def)
    from longest_streak_run [OF ne v] obtain r where r: "r \<in> set (runs ds)"
      "longest_streak ds = (length r, hd r, last r)"
      "\<forall>r' \<in> set (runs ds). length r' \<le> length r"
      by blast
    have rp: "r \<noteq> []" "successively next_day r"
      using runs_properties(2) [OF r(1)] by simp_all
    have sp: "toordinal (last r) = toordinal (hd r) + int (length r) - 1"
      using rp by (intro run_span) simp_all
    have "set r \<subseteq> set ds"
      using r(1) runs_properties(1) [of ds] by (metis UN_I set_concat subsetI)
    with rp(1) v have "valid_date (hd r)" "valid_date (last r)"
      by (auto dest: hd_in_set last_in_set)
    then have ps: "parse_streak (format_streak (length r, hd r, last r)) = (length r, hd r, last r)"
      using valid_date_nonneg [of "hd r"] valid_date_nonneg [of "last r"]
      by (intro parse_streak_format) simp_all
    from rs a r sp ps show ?thesis by auto
  qed
  have p: "\<forall>r \<in> set (runs ds). r \<noteq> [] \<and> successively next_day r"
    using runs_properties(2) by blast
  from none raises reports p runs_properties(1) [of ds] runs_properties(3) [of ds]
    snow_dates_sorted [of df] streak_example_records
  show ?thesis unfolding ds_def by (simp only: if_split) blast
qed

theorem longest_streak_is_longest_run_witness:
  "calculate_snow_records streak_example =
     Inr (Some \<lparr>Top_10_Hoogste_Max = [(''2020/2021'', 6)],
             Top_10_Vroegste_Start_Sneeuwdek = [(''01-12'', ''2020/2021'')],
             Top_10_Laatste_Start_Sneeuwdek = [(''01-12'', ''2020/2021'')],
             Top_10_Vroegste_Einde_Sneeuwdek = [(''10-12'', ''2020/2021'')],
             Top_10_Laatste_Einde_Sneeuwdek = [(''10-12'', ''2020/2021'')],
             Top_10_Meeste_Dagen = [(''2020/2021'', 9)],
             Absoluut_Langste_Periode = Some ''5 dagen (01-12-2020 t/m 05-12-2020)'',
             Totaal_Dagen_met_Sneeuw = Some 9\<rparr>) \<and>
   sorted_wrt (<) (map idx streak_example) \<and>
   concat (runs (snow_dates streak_example)) = snow_dates streak_example \<and>
   sort (snow_dates streak_example) = snow_dates streak_example \<and>
   snow_dates streak_example \<noteq> [] \<and>
   (\<exists>r. parse_streak ''5 dagen (01-12-2020 t/m 05-12-2020)'' = (length r, hd r, last r))"
proof -
  note t = longest_streak_is_longest_run [OF streak_example_valid]
  have ne: "snow_dates streak_example \<noteq> []"
    by (simp add: snow_dates_def streak_example_def)
  have no: "\<not> (\<exists>r \<in> set streak_example.
      0 < depth_cm r \<and> month (idx r) < 7 \<and> year (idx r) = MINYEAR)"
    by (simp add: streak_example_def)
  have c: "concat (runs (snow_dates streak_example)) = snow_dates streak_example"
    by (rule t [THEN conjunct1])
  have s: "sort (snow_dates streak_example) = snow_dates streak_example"
    by (rule t [THEN conjunct2, THEN conjunct1, THEN mp, OF streak_example_sorted])
  note i = t [THEN conjunct2, THEN conjunct2, THEN conjunct2, THEN conjunct2, THEN conjunct2,
      THEN conjunct1, THEN mp, OF ne]
  from i obtain rs reported r where e:
    "calculate_snow_records streak_example = Inr (Some rs)"
    "Absoluut_Langste_Periode rs = Some reported"
    "parse_streak reported = (length r, hd r, last r)"
    unfolding if_not_P [OF no] by blast
  from e(1) have "rs = \<lparr>Top_10_Hoogste_Max = [(''2020/2021'', 6)],
             Top_10_Vroegste_Start_Sneeuwdek = [(''01-12'', ''2020/2021'')],
             Top_10_Laatste_Start_Sneeuwdek = [(''01-12'', ''2020/2021'')],
             Top_10_Vroegste_Einde_Sneeuwdek = [(''10-12'', ''2020/2021'')],
             Top_10_Laatste_Einde_Sneeuwdek = [(''10-12'', ''2020/2021'')],
             Top_10_Meeste_Dagen = [(''2020/2021'', 9)],
             Absoluut_Langste_Periode = Some ''5 dagen (01-12-2020 t/m 05-12-2020)'',
             Totaal_Dagen_met_Sneeuw = Some 9\<rparr>"
    unfolding streak_example_records by (simp only: sum.inject option.inject)
  then have "Absoluut_Langste_Periode rs = Some ''5 dagen (01-12-2020 t/m 05-12-2020)''"
    by simp
  with e(2) have "reported = ''5 dagen (01-12-2020 t/m 05-12-2020)''" by simp
  with e(3) have p: "\<exists>r. parse_streak ''5 dagen (01-12-2020 t/m 05-12-2020)'' =
      (length r, hd r, last r)"
    by blast
  from streak_example_records streak_example_sorted c s ne p show ?thesis
    by (intro conjI)
qed

theorem streak_in_year_one_raises:
  "valid_date (Date 1 2 1) \<and> valid_date (Date 1 2 2) \<and>
   next_day (Date 1 2 1) (Date 1 2 2) \<and>
   calculate_snow_records
     [\<lparr>idx = Date 1 2 1, depth_cm = 3\<rparr>, \<lparr>idx = Date 1 2 2, depth_cm = 3\<rparr>] = Inl ValueError"
proof -
  have "calculate_snow_records
      [\<lparr>idx = Date 1 2 1, depth_cm = 3\<rparr>, \<lparr>idx = Date 1 2 2, depth_cm = 3\<rparr>] = Inl ValueError"
    using valid_0001_02_01 valid_0001_02_02
    by (intro calculate_snow_records_raises [of _ "\<lparr>idx = Date 1 2 1, depth_cm = 3\<rparr>"])
       (simp_all add: MINYEAR_def)
  moreover have "next_day (Date 1 2 1) (Date 1 2 2)"
    by (simp add: next_day_def toordinal_def tm_yday_def days_before_month_def)
  ultimately show ?thesis using valid_0001_02_01 valid_0001_02_02 by simp
qed

section \<open>The chunks of the builder\<close>

lemma chunk_ranges_structure:
  "(s \<le> e \<and> 0 \<le> step \<longrightarrow>
      chunk_ranges step s e \<noteq> [] \<and> fst (hd (chunk_ranges step s e)) = s \<and>
      snd (last (chunk_ranges step s e)) = e) \<and>
   successively (\<lambda>c c'. fst c' = snd c + 1) (chunk_ranges step s e) \<and>
   (\<forall>(a, b) \<in> set (chunk_ranges step s e). s \<le> a \<and> a \<le> b \<and> b \<le> a + step \<and> b \<le> e)"
proof (induction step s e rule: chunk_ranges.induct)
  case (1 step s e)
  show ?case
  proof (cases "s \<le> e \<and> 0 \<le> step")
    case False
    then have "chunk_ranges step s e = []"
      by (subst chunk_ranges.simps) auto
    with False show ?thesis by auto
  next
    case True
    show ?thesis
    proof (cases "s + step < e")
      case False
      with True have "chunk_ranges step s e = [(s, e)]"
        by (subst chunk_ranges.simps) auto
      with True False show ?thesis by auto
    next
      case lt: True
      have u: "chunk_ranges step s e = (s, s + step) # chunk_ranges step (s + step + 1) e"
        using True lt by (simp add: chunk_ranges.simps [of step s e])
      have le: "s + step + 1 \<le> e \<and> 0 \<le> step" using True lt by simp
      from "1.IH" [OF True lt] le show ?thesis
        unfolding u by (auto simp: successively_Cons)
    qed
  qed
qed

lemma chunk_loop_chunks:
  assumes "1 \<le> s" "e \<le> MAXORDINAL"
  shows "chunk_loop fetch n e s acc =
     (if \<exists>(a, b) \<in> set (chunk_ranges (chunk_days n) s e). MAXORDINAL < a + chunk_days n
      then Inl OverflowError
      else Inr (acc @ List.map_filter (\<lambda>(a, b). fetch a b) (chunk_ranges (chunk_days n) s e)))"
  using assms
proof (induction "chunk_days n" s e arbitrary: acc rule: chunk_ranges.induct)
  case (1 s e)
  have st: "0 \<le> chunk_days n" by (simp add: chunk_days_def)
  show ?case
  proof (cases "s \<le> e")
    case False
    then show ?thesis
      by (simp add: chunk_loop.simps [of fetch n e s acc] chunk_ranges.simps [of _ s e])
  next
    case True
    show ?thesis
    proof (cases "s + chunk_days n < e")
      case False
      then have m: "min (s + chunk_days n) e = e" by simp
      have u: "chunk_ranges (chunk_days n) s e = [(s, e)]"
        using True False st by (simp add: chunk_ranges.simps [of _ s e])
      show ?thesis
        using True "1.prems" st m
        by (cases "fetch s e")
          (simp_all add: chunk_loop.simps [of fetch n e s acc] u date_add_days_def
            chunk_days_def [symmetric] Let_def List.map_filter_simps)
    next
      case lt: True
      then have m: "min (s + chunk_days n) e = s + chunk_days n" by simp
      have u: "chunk_ranges (chunk_days n) s e =
          (s, s + chunk_days n) # chunk_ranges (chunk_days n) (s + chunk_days n + 1) e"
        using True lt st by (simp add: chunk_ranges.simps [of _ s e])
      have ok: "s + chunk_days n \<le> MAXORDINAL" "1 \<le> s + chunk_days n"
        "1 \<le> s + chunk_days n + 1" "s + chunk_days n + 1 \<le> MAXORDINAL"
        using lt "1.prems" st by simp_all
      have IH: "chunk_loop fetch n e (s + chunk_days n + 1) acc' =
          (if \<exists>(a, b) \<in> set (chunk_ranges (chunk_days n) (s + chunk_days n + 1) e).
                MAXORDINAL < a + chunk_days n
           then Inl OverflowError
           else Inr (acc' @ List.map_filter (\<lambda>(a, b). fetch a b)
                  (chunk_ranges (chunk_days n) (s + chunk_days n + 1) e)))" for acc'
        using True st lt ok(3) "1.prems"(2) by (intro "1.hyps") simp_all
      have step: "chunk_loop fetch n e s acc =
          chunk_loop fetch n e (s + chunk_days n + 1)
            (case fetch s (s + chunk_days n) of Some f \<Rightarrow> acc @ [f] | None \<Rightarrow> acc)"
        using True lt ok m
        by (subst chunk_loop.simps)
           (simp add: date_add_days_def chunk_days_def [symmetric] Let_def)
      show ?thesis
        unfolding step IH u using ok(1)
        by (cases "fetch s (s + chunk_days n)") (simp_all add: List.map_filter_simps)
    qed
  qed
qed


lemma drop_duplicated_idx:
  "distinct (map idx (drop_duplicated seen rs)) \<and>
   set (map idx (drop_duplicated seen rs)) = set (map idx rs) - set seen"
proof (induction rs arbitrary: seen)
  case Nil
  show ?case by simp
next
  case (Cons r rs)
  from Cons [of seen] Cons [of "idx r # seen"] show ?case by auto
qed

lemma drop_duplicated_first:
  "d \<notin> set seen \<Longrightarrow>
   map_of (map (\<lambda>r. (idx r, depth_cm r)) (drop_duplicated seen rs)) d =
   map_of (map (\<lambda>r. (idx r, depth_cm r)) rs) d"
proof (induction rs arbitrary: seen)
  case Nil
  show ?case by simp
next
  case (Cons r rs)
  show ?case
  proof (cases "idx r \<in> set seen")
    case True
    with Cons.prems have "idx r \<noteq> d" by auto
    with True Cons.IH [OF Cons.prems] show ?thesis by simp
  next
    case False
    show ?thesis
    proof (cases "idx r = d")
      case True
      with False show ?thesis by simp
    next
      case ne: False
      with Cons.prems have "d \<notin> set (idx r # seen)" by auto
      from Cons.IH [OF this] False ne show ?thesis by simp
    qed
  qed
qed

lemma valid_9999_12_31: "valid_date (Date 9999 12 31)"
  by (simp add: valid_date_def MINYEAR_def MAXYEAR_def days_in_month_def)

lemma toordinal_9999_12_31: "toordinal (Date 9999 12 31) = MAXORDINAL"
  by (simp add: toordinal_def days_before_year_def tm_yday_def days_before_month_def
      is_leap_def MAXORDINAL_def)

lemma toordinal_bounds:
  assumes "valid_date d"
  shows "1 \<le> toordinal d" and "toordinal d \<le> MAXORDINAL"
proof -
  have "days_before_year 1 \<le> days_before_year (year d)"
    using assms by (intro days_before_year_mono) (simp add: valid_date_def MINYEAR_def)
  then have "0 \<le> days_before_year (year d)" by (simp add: days_before_year_def)
  with yday_pos [OF assms] show "1 \<le> toordinal d" by (simp add: toordinal_def)
  have "d \<le> Date 9999 12 31"
    using assms
    by (auto simp: less_eq_date_def valid_date_def MAXYEAR_def days_in_month_def
        split: if_splits)
  then show "toordinal d \<le> MAXORDINAL"
    using toordinal_le_iff [OF assms valid_9999_12_31] by (simp add: toordinal_9999_12_31)
qed

lemma map_filter_Nil_iff:
  "(List.map_filter f xs = []) = (\<forall>x \<in> set xs. f x = None)"
  by (induction xs) (auto simp: List.map_filter_simps split: option.splits)


lemma get_all_historical_data_chunks:
  assumes "strptime start_date_api = Inr sd" "strptime end_date_api = Inr ed"
    and "valid_date sd" "valid_date ed"
  shows "get_all_historical_data strptime fetch start_date_api end_date_api n =
     (if \<exists>(a, b) \<in> set (chunk_ranges (chunk_days n) (toordinal sd) (toordinal ed)).
           MAXORDINAL < a + chunk_days n
      then Inl OverflowError
      else if \<forall>(a, b) \<in> set (chunk_ranges (chunk_days n) (toordinal sd) (toordinal ed)).
           fetch a b = None
      then Inr None
      else Inr (Some (drop_duplicated [] (concat (List.map_filter (\<lambda>(a, b). fetch a b)
             (chunk_ranges (chunk_days n) (toordinal sd) (toordinal ed)))))))"
proof -
  have l: "chunk_loop fetch n (toordinal ed) (toordinal sd) [] =
     (if \<exists>(a, b) \<in> set (chunk_ranges (chunk_days n) (toordinal sd) (toordinal ed)).
           MAXORDINAL < a + chunk_days n
      then Inl OverflowError
      else Inr ([] @ List.map_filter (\<lambda>(a, b). fetch a b)
             (chunk_ranges (chunk_days n) (toordinal sd) (toordinal ed))))"
    using toordinal_bounds(1) [OF assms(3)] toordinal_bounds(2) [OF assms(4)]
    by (rule chunk_loop_chunks)
  have e: "(List.map_filter (\<lambda>(a, b). fetch a b) cs = []) = (\<forall>(a, b) \<in> set cs. fetch a b = None)"
    for cs
    by (simp add: map_filter_Nil_iff case_prod_beta)
  show ?thesis
    by (simp add: get_all_historical_data_def assms(1,2) l e)
qed

text \<open>
  C8, as amended: for parsed, valid start and end dates, where no chunk start plus
  \<open>chunk_size_years * 365 + 10\<close> days passes 9999-12-31, \<^verbatim>\<open>get_all_historical_data\<close>
  fetches the successive chunks of the inclusive range (the first starts at the start
  date, each next one the day after the one before ends, the last ends at the end date,
  none is longer than \<open>chunk_size_years * 365 + 11\<close> days), goes on after a chunk whose
  fetch gives None, and returns None exactly when every fetch gives None; otherwise it
  returns the frames of the successful chunks, joined in order, with no date twice and
  for each date the depth of its first row. (Where a chunk start plus that many days
  passes 9999-12-31, the date addition raises OverflowError.)
\<close>

theorem chunks_fetched_and_merged:
  assumes "strptime start_date_api = Inr sd" and "strptime end_date_api = Inr ed"
    and "valid_date sd" and "valid_date ed"
    and "\<forall>(a, b) \<in> set (chunk_ranges (chunk_days n) (toordinal sd) (toordinal ed)).
           a + chunk_days n \<le> MAXORDINAL"
  shows "(let chunks = chunk_ranges (chunk_days n) (toordinal sd) (toordinal ed);
              frames = List.map_filter (\<lambda>(a, b). fetch a b) chunks;
              result = get_all_historical_data strptime fetch start_date_api end_date_api n
          in (sd \<le> ed \<longrightarrow> chunks \<noteq> [] \<and> fst (hd chunks) = toordinal sd \<and>
                snd (last chunks) = toordinal ed) \<and>
             successively (\<lambda>c c'. fst c' = snd c + 1) chunks \<and>
             (\<forall>(a, b) \<in> set chunks. a \<le> b \<and> b \<le> a + chunk_days n) \<and>
             (result = Inr None) = (\<forall>(a, b) \<in> set chunks. fetch a b = None) \<and>
             ((\<exists>(a, b) \<in> set chunks. fetch a b \<noteq> None) \<longrightarrow>
                (\<exists>combined. result = Inr (Some combined) \<and>
                   combined = drop_duplicated [] (concat frames) \<and>
                   distinct (map idx combined) \<and>
                   set (map idx combined) = set (map idx (concat frames)) \<and>
                   map_of (map (\<lambda>r. (idx r, depth_cm r)) combined) =
                     map_of (map (\<lambda>r. (idx r, depth_cm r)) (concat frames)))))"
proof -
  define chunks where "chunks = chunk_ranges (chunk_days n) (toordinal sd) (toordinal ed)"
  define frames where "frames = List.map_filter (\<lambda>(a, b). fetch a b) chunks"
  define result where
    "result = get_all_historical_data strptime fetch start_date_api end_date_api n"
  have no: "\<not> (\<exists>(a, b) \<in> set chunks. MAXORDINAL < a + chunk_days n)"
    using assms(5) unfolding chunks_def by fastforce
  have res: "result = (if \<forall>(a, b) \<in> set chunks. fetch a b = None then Inr None
      else Inr (Some (drop_duplicated [] (concat frames))))"
    using get_all_historical_data_chunks [OF assms(1-4), of fetch n] no
    unfolding result_def frames_def chunks_def by simp
  have st: "0 \<le> chunk_days n" by (simp add: chunk_days_def)
  have le: "sd \<le> ed \<Longrightarrow> toordinal sd \<le> toordinal ed"
    using toordinal_le_iff [OF assms(3,4)] by simp
  note cs = chunk_ranges_structure [of "toordinal sd" "toordinal ed" "chunk_days n",
      folded chunks_def]
  have c1: "sd \<le> ed \<longrightarrow> chunks \<noteq> [] \<and> fst (hd chunks) = toordinal sd \<and>
      snd (last chunks) = toordinal ed"
    using cs le st by blast
  have c2: "successively (\<lambda>c c'. fst c' = snd c + 1) chunks" using cs by blast
  have c3: "\<forall>(a, b) \<in> set chunks. a \<le> b \<and> b \<le> a + chunk_days n" using cs by fastforce
  have c4: "(result = Inr None) = (\<forall>(a, b) \<in> set chunks. fetch a b = None)"
    unfolding res by simp
  have c5: "\<exists>combined. result = Inr (Some combined) \<and>
      combined = drop_duplicated [] (concat frames) \<and>
      distinct (map idx combined) \<and>
      set (map idx combined) = set (map idx (concat frames)) \<and>
      map_of (map (\<lambda>r. (idx r, depth_cm r)) combined) =
        map_of (map (\<lambda>r. (idx r, depth_cm r)) (concat frames))"
    if "\<exists>(a, b) \<in> set chunks. fetch a b \<noteq> None"
  proof -
    from that have "\<not> (\<forall>(a, b) \<in> set chunks. fetch a b = None)"
      by fastforce
    then have "result = Inr (Some (drop_duplicated [] (concat frames)))"
      unfolding res by (simp only: if_False)
    moreover have "map_of (map (\<lambda>r. (idx r, depth_cm r)) (drop_duplicated [] (concat frames))) =
        map_of (map (\<lambda>r. (idx r, depth_cm r)) (concat frames))"
      by (rule ext) (simp add: drop_duplicated_first)
    ultimately show ?thesis
      using drop_duplicated_idx [of "[]" "concat frames"] by simp
  qed
  from c1 c2 c3 c4 c5 show ?thesis
    unfolding Let_def chunks_def [symmetric] frames_def [symmetric] result_def [symmetric]
    by blast
qed


lemma valid_2015_07_01: "valid_date (Date 2015 7 1)"
  by (simp add: valid_date_def MINYEAR_def MAXYEAR_def days_in_month_def)

lemma valid_2025_06_30: "valid_date (Date 2025 6 30)"
  by (simp add: valid_date_def MINYEAR_def MAXYEAR_def days_in_month_def)

lemma example_chunks:
  "chunk_ranges (chunk_days 4) (toordinal (Date 2015 7 1)) (toordinal (Date 2025 6 30)) =
     [(735780, 737250), (737251, 738721), (738722, 739432)]"
  by code_simp

theorem chunks_fetched_and_merged_witness:
  "strptime_example ''2015-07-01'' = Inr (Date 2015 7 1) \<and>
   strptime_example ''2025-06-30'' = Inr (Date 2025 6 30) \<and>
   chunk_ranges (chunk_days 4) (toordinal (Date 2015 7 1)) (toordinal (Date 2025 6 30)) =
     [(735780, 737250), (737251, 738721), (738722, 739432)] \<and>
   fetch_example 737251 738721 = None \<and>
   get_all_historical_data strptime_example fetch_example ''2015-07-01'' ''2025-06-30'' 4 =
     Inr (Some [\<lparr>idx = Date 2015 7 1, depth_cm = 0\<rparr>, \<lparr>idx = Date 2019 7 10, depth_cm = 1\<rparr>,
                \<lparr>idx = Date 2025 6 30, depth_cm = 0\<rparr>])"
proof -
  have s: "strptime_example ''2015-07-01'' = Inr (Date 2015 7 1)"
    and e: "strptime_example ''2025-06-30'' = Inr (Date 2025 6 30)"
    by (simp_all add: strptime_example_def)
  have no: "\<forall>(a, b) \<in> set (chunk_ranges (chunk_days 4) (toordinal (Date 2015 7 1))
      (toordinal (Date 2025 6 30))). a + chunk_days 4 \<le> MAXORDINAL"
    unfolding example_chunks by (simp add: chunk_days_def MAXORDINAL_def)
  have f: "List.map_filter (\<lambda>(a, b). fetch_example a b)
      [(735780, 737250), (737251, 738721), (738722, 739432)] =
      [[\<lparr>idx = Date 2015 7 1, depth_cm = 0\<rparr>, \<lparr>idx = Date 2019 7 10, depth_cm = 1\<rparr>],
       [\<lparr>idx = Date 2019 7 10, depth_cm = 2\<rparr>, \<lparr>idx = Date 2025 6 30, depth_cm = 0\<rparr>]]"
    by (simp add: List.map_filter_simps fetch_example_def)
  have x: "\<exists>(a, b) \<in> set [(735780 :: int, 737250 :: int), (737251, 738721), (738722, 739432)].
      fetch_example a b \<noteq> None"
    by (simp add: fetch_example_def)
  from chunks_fetched_and_merged [where strptime = strptime_example
      and start_date_api = "''2015-07-01''" and end_date_api = "''2025-06-30''"
      and fetch = fetch_example, OF s e valid_2015_07_01 valid_2025_06_30 no]
  have "(\<exists>(a, b) \<in> set [(735780 :: int, 737250 :: int), (737251, 738721), (738722, 739432)].
          fetch_example a b \<noteq> None) \<longrightarrow>
      get_all_historical_data strptime_example fetch_example ''2015-07-01'' ''2025-06-30'' 4 =
        Inr (Some (drop_duplicated [] (concat (List.map_filter (\<lambda>(a, b). fetch_example a b)
          [(735780, 737250), (737251, 738721), (738722, 739432)]))))"
    unfolding Let_def example_chunks by blast
  with x have "get_all_historical_data strptime_example fetch_example ''2015-07-01''
      ''2025-06-30'' 4 =
      Inr (Some (drop_duplicated [] (concat (List.map_filter (\<lambda>(a, b). fetch_example a b)
        [(735780, 737250), (737251, 738721), (738722, 739432)]))))"
    by blast
  then show ?thesis
    unfolding f using s e example_chunks by (simp add: fetch_example_def)
qed

theorem chunk_end_overflow:
  "strptime_example ''9990-01-01'' = Inr (Date 9990 1 1) \<and>
   strptime_example ''9999-12-31'' = Inr (Date 9999 12 31) \<and>
   fetch_example (toordinal (Date 9990 1 1)) (toordinal (Date 9990 1 1) + chunk_days 4) \<noteq> None \<and>
   get_all_historical_data strptime_example fetch_example ''9990-01-01'' ''9999-12-31'' 4 =
     Inl OverflowError"
  by code_simp

end
